theory Spec2Isabelle
  imports Main "HOL-Library.AList"
begin

section \<open>Errors\<close>

text \<open>
  A JavaScript exception that reaches the caller is a value: \<open>Error msg\<close> for
  \<^verbatim>\<open>new Error(msg)\<close>, \<open>TypeError msg\<close> for a property read on \<^verbatim>\<open>undefined\<close>.
  A function that can throw returns \<open>error + 'a\<close> with \<open>Inl\<close> the exception.
\<close>

datatype error = Error string | TypeError string

section \<open>The check store (queue-manager.js)\<close>

text \<open>
  A \<^verbatim>\<open>checks\<close> object is a JavaScript object with string keys and string values: an
  association list of its own properties in the order in which the object enumerates them
  (\<^verbatim>\<open>Object.values\<close>, \<^verbatim>\<open>Object.entries\<close>, \<^verbatim>\<open>JSON.stringify\<close>): the keys that are
  array indices first, in ascending numeric order, then the other keys in the order of
  their creation. Reading a key is \<open>map_of\<close>, \<^verbatim>\<open>Object.values\<close> is \<open>map snd\<close>.
\<close>

text \<open>An array index is the canonical decimal numeral of an integer from 0 to
  \<open>2\<^sup>3\<^sup>2 - 2\<close>.\<close>

definition is_digit :: "char \<Rightarrow> bool" where
  "is_digit c = (c \<in> set ''0123456789'')"

definition digit_value :: "char \<Rightarrow> int" where
  "digit_value c = int (length (takeWhile (\<lambda>d. d \<noteq> c) ''0123456789''))"

definition digits_value :: "string \<Rightarrow> int" where
  "digits_value s = foldl (\<lambda>n c. 10 * n + digit_value c) 0 s"

definition is_array_index :: "string \<Rightarrow> bool" where
  "is_array_index s =
     (s \<noteq> [] \<and> list_all is_digit s \<and> (length s = 1 \<or> hd s \<noteq> CHR ''0'') \<and>
      digits_value s < 4294967295)"

text \<open>A new array-index key takes its place among the array-index keys at the front.\<close>

fun insert_index :: "string \<Rightarrow> 'v \<Rightarrow> (string \<times> 'v) list \<Rightarrow> (string \<times> 'v) list" where
  "insert_index k v [] = [(k, v)]"
| "insert_index k v (entry # rest) =
     (if is_array_index (fst entry) \<and> digits_value (fst entry) < digits_value k
      then entry # insert_index k v rest
      else (k, v) # entry # rest)"

text \<open>
  The assignment \<^verbatim>\<open>object[key] = value\<close> of a string to a plain object. An own
  property is overwritten where it stands. A key the object does not have is created,
  except \<^verbatim>\<open>__proto__\<close>: the assignment then reaches the setter inherited from
  \<^verbatim>\<open>Object.prototype\<close>, which ignores a value that is a string, and the object stays
  as it was.
\<close>

definition js_set :: "string \<Rightarrow> 'v \<Rightarrow> (string \<times> 'v) list \<Rightarrow> (string \<times> 'v) list" where
  "js_set k v al =
     (case map_of al k of
        Some old \<Rightarrow> AList.update k v al
      | None \<Rightarrow>
          if k = ''__proto__'' then al
          else if is_array_index k then insert_index k v al
          else al @ [(k, v)])"

record profile =
  steam_id :: string
  username :: string
  timestamp :: int
  checks :: "(string \<times> string) list"

text \<open>The requests of the queue service protocol (redis-queue-client.js, lines 93, 112,
  131, 149, 163), each with the instance identity and its payload.\<close>

datatype request =
    ClaimReq string int
  | CompleteReq string "string list"
  | ReleaseReq string "string list"
  | StatsReq
  | ReleaseInstanceReq string

text \<open>
  The state a \<^verbatim>\<open>QueueManager\<close> works on:
  \<^item> \<open>queueFile\<close>: the content of \<^verbatim>\<open>profiles_queue.json\<close>; \<open>None\<close> is a file that is
    absent, unreadable, not JSON or not a JSON array (all read as \<^verbatim>\<open>[]\<close>);
  \<^item> \<open>writePlan\<close>: whether the coming calls of \<^verbatim>\<open>fs.writeFile\<close> succeed, the next call
    first; once the list is used up every write succeeds;
  \<^item> \<open>redisQueueClient\<close>: the instance identity of the queue client, \<open>None\<close> when the
    manager was built without one;
  \<^item> \<open>wire\<close>: the requests sent to the queue service so far, oldest first.
\<close>

record queue_manager =
  queueFile :: "profile list option"
  writePlan :: "bool list"
  redisQueueClient :: "string option"
  wire :: "request list"

definition readQueueProfiles :: "queue_manager \<Rightarrow> profile list" where
  "readQueueProfiles qm = (case queueFile qm of None \<Rightarrow> [] | Some ps \<Rightarrow> ps)"

text \<open>\<^verbatim>\<open>writeQueueProfiles\<close> returns whether the write succeeded; a failed write leaves
  the file as it was. Its argument is always an array here, so the \<^verbatim>\<open>Array.isArray\<close>
  guard never fires.\<close>

definition writeQueueProfiles :: "profile list \<Rightarrow> queue_manager \<Rightarrow> bool \<times> queue_manager" where
  "writeQueueProfiles profiles qm =
     (case writePlan qm of
        [] \<Rightarrow> (True, qm\<lparr>queueFile := Some profiles\<rparr>)
      | ok # rest \<Rightarrow>
          if ok then (True, qm\<lparr>queueFile := Some profiles, writePlan := rest\<rparr>)
          else (False, qm\<lparr>writePlan := rest\<rparr>))"

text \<open>The result of \<^verbatim>\<open>apiService.checkSteamIdExists\<close>.\<close>

record exists_check =
  check_success :: bool
  check_exists :: bool

text \<open>\<^verbatim>\<open>String.prototype.trim\<close> on ASCII text: the white space it strips.\<close>

definition is_space :: "char \<Rightarrow> bool" where
  "is_space c = (c \<in> set [CHR '' '', CHR 0x09, CHR 0x0A, CHR 0x0B, CHR 0x0C, CHR 0x0D])"

text \<open>\<^verbatim>\<open>if (!username || typeof username !== 'string' || username.trim() === '')
  username = 'Professor'\<close>; a username that is missing or not a string is \<open>None\<close>.\<close>

definition fix_username :: "string option \<Rightarrow> string" where
  "fix_username u =
     (case u of None \<Rightarrow> ''Professor''
      | Some s \<Rightarrow> if list_all is_space s then ''Professor'' else s)"

definition CHECK_NAMES :: "string list" where
  "CHECK_NAMES = [''animated_avatar'', ''avatar_frame'', ''mini_profile_background'',
     ''profile_background'', ''steam_level'', ''friends'', ''csgo_inventory'']"

definition new_profile :: "int \<Rightarrow> string \<Rightarrow> string \<Rightarrow> profile" where
  "new_profile now steamId name =
     \<lparr>steam_id = steamId, username = name, timestamp = now,
      checks = [(''animated_avatar'', ''to_check''), (''avatar_frame'', ''to_check''),
                (''mini_profile_background'', ''to_check''), (''profile_background'', ''to_check''),
                (''steam_level'', ''to_check''), (''friends'', ''to_check''),
                (''csgo_inventory'', ''to_check'')]\<rparr>"

text \<open>Lines 99 to 130 of \<^verbatim>\<open>addProfileToQueue\<close>: fix the username, build the profile,
  append it and save; a failed save throws.\<close>

definition insert_profile ::
  "int \<Rightarrow> string \<Rightarrow> string option \<Rightarrow> profile list \<Rightarrow> queue_manager \<Rightarrow>
   (error + profile option) \<times> queue_manager" where
  "insert_profile now steamId uname profiles qm =
     (let prof = new_profile now steamId (fix_username uname);
          (saveSuccess, qm') = writeQueueProfiles (profiles @ [prof]) qm
      in if \<not> saveSuccess then (Inl (Error ''Failed to save updated queue''), qm')
         else (Inr (Some prof), qm'))"

text \<open>
  \<^verbatim>\<open>addProfileToQueue(steamId, username, apiService)\<close> at clock reading \<open>now\<close>. The
  result is the returned profile (\<open>Some\<close>: the existing one or the new one), \<open>None\<close> for
  \<^verbatim>\<open>null\<close>, or the exception rethrown by the \<^verbatim>\<open>catch\<close> block, with the state left
  behind. \<open>apiService\<close> is \<open>None\<close> when the argument is omitted; the probe itself may throw.
\<close>

definition addProfileToQueue ::
  "int \<Rightarrow> string \<Rightarrow> string option \<Rightarrow> (string \<Rightarrow> error + exists_check) option \<Rightarrow>
   queue_manager \<Rightarrow> (error + profile option) \<times> queue_manager" where
  "addProfileToQueue now steamId uname apiService qm =
     (let profiles = readQueueProfiles qm in
      case find (\<lambda>p. steam_id p = steamId) profiles of
        Some existing \<Rightarrow> (Inr (Some existing), qm)
      | None \<Rightarrow>
         (case apiService of
            None \<Rightarrow> insert_profile now steamId uname profiles qm
          | Some api \<Rightarrow>
             (case api steamId of
                Inl e \<Rightarrow> (Inl e, qm)
              | Inr existsCheckResult \<Rightarrow>
                  if check_success existsCheckResult \<and> check_exists existsCheckResult
                  then (Inr None, qm)
                  else insert_profile now steamId uname profiles qm)))"

text \<open>\<^verbatim>\<open>Array.prototype.findIndex\<close>; \<open>None\<close> is the result \<^verbatim>\<open>-1\<close>.\<close>

fun findIndex :: "('a \<Rightarrow> bool) \<Rightarrow> 'a list \<Rightarrow> nat option" where
  "findIndex P [] = None"
| "findIndex P (x # xs) = (if P x then Some 0 else map_option Suc (findIndex P xs))"

definition validStatuses :: "string list" where
  "validStatuses = [''to_check'', ''passed'', ''failed'', ''deferred'']"

text \<open>\<^verbatim>\<open>updateProfileCheck(steamId, checkName, status)\<close>: the exception thrown on a
  failed save is caught inside and turned into \<^verbatim>\<open>false\<close>.\<close>

definition updateProfileCheck ::
  "string \<Rightarrow> string \<Rightarrow> string \<Rightarrow> queue_manager \<Rightarrow> bool \<times> queue_manager" where
  "updateProfileCheck steamId checkName status qm =
     (let profiles = readQueueProfiles qm in
      case findIndex (\<lambda>p. steam_id p = steamId) profiles of
        None \<Rightarrow> (False, qm)
      | Some profileIndex \<Rightarrow>
          if status \<notin> set validStatuses then (False, qm)
          else
            (let p = profiles ! profileIndex;
                 profiles' = profiles[profileIndex := p\<lparr>checks := js_set checkName status (checks p)\<rparr>];
                 (saveSuccess, qm') = writeQueueProfiles profiles' qm
             in if \<not> saveSuccess then (False, qm') else (True, qm')))"

section \<open>The queue client (redis-queue-client.js, class RedisQueueClient)\<close>

text \<open>
  What comes back for one request: a socket error, a timeout, or a response with its
  status code and body. The body is \<open>None\<close> when \<^verbatim>\<open>JSON.parse\<close> rejects the text (or
  yields \<^verbatim>\<open>null\<close>, whose \<^verbatim>\<open>.success\<close> throws inside the same \<^verbatim>\<open>try\<close>); otherwise it
  is the parsed object, read through the fields the client uses. \<open>resp_success\<close> is the
  truthiness of \<^verbatim>\<open>parsed.success\<close>; a field that is absent is \<open>None\<close>.
\<close>

record item =
  item_id :: string
  item_username :: "string option"

record response =
  resp_success :: bool
  resp_items :: "item list option"
  resp_stats :: "string option"
  resp_released_count :: "int option"

datatype http_outcome =
    RequestError string
  | RequestTimeout
  | HttpResponse int "response option"

text \<open>\<^verbatim>\<open>makeRequest\<close>: the promise resolves (\<open>Inr\<close>) or rejects (\<open>Inl\<close>); the request is
  appended to the wire. The tails of the error messages are not kept.\<close>

definition makeRequest ::
  "(request \<Rightarrow> http_outcome) \<Rightarrow> request \<Rightarrow> request list \<Rightarrow> (error + response) \<times> request list" where
  "makeRequest net req w =
     ((case net req of
         RequestError msg \<Rightarrow> Inl (Error ''Queue API request failed'')
       | RequestTimeout \<Rightarrow> Inl (Error ''Queue API request timeout'')
       | HttpResponse statusCode body \<Rightarrow>
          (case body of
             None \<Rightarrow> Inl (Error ''Failed to parse queue API response'')
           | Some parsed \<Rightarrow>
               if statusCode = 200 \<and> resp_success parsed then Inr parsed
               else Inl (Error ''Queue API error''))),
      w @ [req])"

text \<open>\<^verbatim>\<open>try { body } catch (error) { handler }\<close> on results.\<close>

definition try_catch :: "error + 'a \<Rightarrow> (error \<Rightarrow> error + 'a) \<Rightarrow> error + 'a" where
  "try_catch body handler = (case body of Inl e \<Rightarrow> handler e | Inr v \<Rightarrow> Inr v)"

definition and_then :: "error + 'a \<Rightarrow> ('a \<Rightarrow> error + 'b) \<Rightarrow> error + 'b" where
  "and_then r f = (case r of Inl e \<Rightarrow> Inl e | Inr v \<Rightarrow> f v)"

text \<open>\<^verbatim>\<open>claimItems\<close>: \<^verbatim>\<open>response.items.length\<close> throws a TypeError inside the \<^verbatim>\<open>try\<close>
  when the body has no \<^verbatim>\<open>items\<close>.\<close>

definition claimItems ::
  "(request \<Rightarrow> http_outcome) \<Rightarrow> string \<Rightarrow> int \<Rightarrow> request list \<Rightarrow> (error + item list) \<times> request list" where
  "claimItems net instanceId count w =
     (let (r, w') = makeRequest net (ClaimReq instanceId count) w
      in (try_catch
            (and_then r (\<lambda>resp. case resp_items resp of
                                   None \<Rightarrow> Inl (TypeError ''items is undefined'')
                                 | Some xs \<Rightarrow> Inr xs))
            (\<lambda>e. Inr []), w'))"

definition completeItems ::
  "(request \<Rightarrow> http_outcome) \<Rightarrow> string \<Rightarrow> string list \<Rightarrow> request list \<Rightarrow> (error + bool) \<times> request list" where
  "completeItems net instanceId itemIds w =
     (let (r, w') = makeRequest net (CompleteReq instanceId itemIds) w
      in (try_catch (and_then r (\<lambda>resp. Inr True)) (\<lambda>e. Inr False), w'))"

definition releaseItems ::
  "(request \<Rightarrow> http_outcome) \<Rightarrow> string \<Rightarrow> string list \<Rightarrow> request list \<Rightarrow> (error + bool) \<times> request list" where
  "releaseItems net instanceId itemIds w =
     (let (r, w') = makeRequest net (ReleaseReq instanceId itemIds) w
      in (try_catch (and_then r (\<lambda>resp. Inr True)) (\<lambda>e. Inr False), w'))"

text \<open>\<^verbatim>\<open>getStats\<close>: the result is \<^verbatim>\<open>response.stats\<close> (\<open>None\<close> when the body has none) or
  \<^verbatim>\<open>null\<close>, also \<open>None\<close>.\<close>

definition getStats ::
  "(request \<Rightarrow> http_outcome) \<Rightarrow> request list \<Rightarrow> (error + string option) \<times> request list" where
  "getStats net w =
     (let (r, w') = makeRequest net StatsReq w
      in (try_catch (and_then r (\<lambda>resp. Inr (resp_stats resp))) (\<lambda>e. Inr None), w'))"

text \<open>\<^verbatim>\<open>releaseInstance\<close>: \<^verbatim>\<open>response.released_count || 0\<close>.\<close>

definition releaseInstance ::
  "(request \<Rightarrow> http_outcome) \<Rightarrow> string \<Rightarrow> request list \<Rightarrow> (error + int) \<times> request list" where
  "releaseInstance net instanceId w =
     (let (r, w') = makeRequest net (ReleaseInstanceReq instanceId) w
      in (try_catch
            (and_then r (\<lambda>resp. Inr (case resp_released_count resp of None \<Rightarrow> 0 | Some n \<Rightarrow> n)))
            (\<lambda>e. Inr 0), w'))"

section \<open>The check store, continued\<close>

text \<open>\<^verbatim>\<open>removeProfileFromQueue\<close>: the result of \<^verbatim>\<open>completeItems\<close> is not read, and an
  exception from it would be caught and logged.\<close>

definition removeProfileFromQueue ::
  "(request \<Rightarrow> http_outcome) \<Rightarrow> string \<Rightarrow> queue_manager \<Rightarrow> bool \<times> queue_manager" where
  "removeProfileFromQueue net steamId qm =
     (let profiles = readQueueProfiles qm;
          filteredProfiles = filter (\<lambda>p. steam_id p \<noteq> steamId) profiles
      in if length filteredProfiles < length profiles then
           (let (saveSuccess, qm1) = writeQueueProfiles filteredProfiles qm
            in if \<not> saveSuccess then (False, qm1)
               else (case redisQueueClient qm1 of
                       None \<Rightarrow> (True, qm1)
                     | Some instanceId \<Rightarrow>
                         (let (r, w) = completeItems net instanceId [steamId] (wire qm1)
                          in (True, qm1\<lparr>wire := w\<rparr>))))
         else (False, qm))"

text \<open>The inner loop of \<^verbatim>\<open>convertDeferredChecksToToCheck\<close> over the entries of one
  profile's checks (a snapshot taken by \<^verbatim>\<open>Object.entries\<close>), with the number of
  conversions.\<close>

definition convert_step ::
  "string \<times> string \<Rightarrow> (string \<times> string) list \<times> nat \<Rightarrow> (string \<times> string) list \<times> nat" where
  "convert_step entry acc =
     (if snd entry = ''deferred''
      then (js_set (fst entry) ''to_check'' (fst acc), Suc (snd acc))
      else acc)"

definition convert_profile :: "profile \<Rightarrow> profile \<times> nat" where
  "convert_profile p =
     (let (cs, n) = fold convert_step (checks p) (checks p, 0)
      in (p\<lparr>checks := cs\<rparr>, n))"

record conversion_result =
  conversions :: nat
  profilesAffected :: nat

definition convertDeferredChecksToToCheck :: "queue_manager \<Rightarrow> conversion_result \<times> queue_manager" where
  "convertDeferredChecksToToCheck qm =
     (let converted = map convert_profile (readQueueProfiles qm);
          conversionsCount = sum_list (map snd converted);
          affected = length (filter (\<lambda>c. 0 < snd c) converted)
      in if 0 < conversionsCount then
           (let (saveSuccess, qm') = writeQueueProfiles (map fst converted) qm
            in if \<not> saveSuccess then (\<lparr>conversions = 0, profilesAffected = 0\<rparr>, qm')
               else (\<lparr>conversions = conversionsCount, profilesAffected = affected\<rparr>, qm'))
         else (\<lparr>conversions = conversionsCount, profilesAffected = affected\<rparr>, qm))"


definition hasDeferred :: "profile \<Rightarrow> bool" where
  "hasDeferred p = list_ex (\<lambda>status. status = ''deferred'') (map snd (checks p))"




section \<open>The health gate and the pull from the shared queue\<close>

text \<open>What \<^verbatim>\<open>getConnectionStatus\<close> reports for one endpoint.\<close>

record endpoint_summary =
  availableConnections :: int
  totalConnections :: int
  nextAvailableIn :: "int option"

datatype endpoint_state = Available | InCooldown "int option" string

record connection_status =
  availableEndpoints :: nat
  totalEndpoints :: nat
  endpointCooldowns :: "(string \<times> endpoint_state) list"
  endpointSummary :: "(string \<times> endpoint_summary) list"

text \<open>\<^verbatim>\<open>getQueuedProfilesSync\<close>: the synchronous read, with the same fallback to \<^verbatim>\<open>[]\<close>.\<close>

definition getQueuedProfilesSync :: "queue_manager \<Rightarrow> profile list" where
  "getQueuedProfilesSync qm = (case queueFile qm of None \<Rightarrow> [] | Some ps \<Rightarrow> ps)"

text \<open>
  \<^verbatim>\<open>isHealthyToClaimWork\<close>. The class of \<^verbatim>\<open>this.steamValidator\<close> is not part of the
  sources, so the validator is a parameter: \<open>None\<close> when the manager has none, otherwise what
  its \<^verbatim>\<open>getCooldownStatus()\<close> does when called, \<open>Inl\<close> an exception (also one raised
  while the status is read, inside the same \<^verbatim>\<open>try\<close>), \<open>Inr\<close> the status returned.
\<close>

definition isHealthyToClaimWork :: "(error + connection_status) option \<Rightarrow> queue_manager \<Rightarrow> bool" where
  "isHealthyToClaimWork steamValidator qm =
     (let profiles = getQueuedProfilesSync qm;
          hasDeferredChecks = list_ex hasDeferred profiles
      in if hasDeferredChecks then False
         else (case steamValidator of
                 None \<Rightarrow> True
               | Some getCooldownStatus \<Rightarrow>
                  (case getCooldownStatus of
                     Inl e \<Rightarrow> False
                   | Inr connectionStatus \<Rightarrow>
                       list_ex (\<lambda>endpoint. 0 < availableConnections endpoint)
                         (map snd (endpointSummary connectionStatus)))))"

text \<open>
  The loop of \<^verbatim>\<open>pullFromRedisQueue\<close> over the claimed items (lines 300 to 315), on the
  pair of \<^verbatim>\<open>addedCount\<close> and the state. The add is called with two arguments, so its
  \<^verbatim>\<open>apiService\<close> is \<open>None\<close>. \<^verbatim>\<open>releaseItems\<close> does not throw and its result is not read.
\<close>

fun pull_loop ::
  "int \<Rightarrow> (request \<Rightarrow> http_outcome) \<Rightarrow> string \<Rightarrow> item list \<Rightarrow> nat \<times> queue_manager \<Rightarrow>
   nat \<times> queue_manager" where
  "pull_loop now net instanceId [] acc = acc"
| "pull_loop now net instanceId (it # its) (addedCount, qm) =
     (case addProfileToQueue now (item_id it) (item_username it) None qm of
        (Inr (Some prof), qm') \<Rightarrow> pull_loop now net instanceId its (Suc addedCount, qm')
      | (Inr None, qm') \<Rightarrow>
          pull_loop now net instanceId its
            (addedCount, qm'\<lparr>wire := snd (releaseItems net instanceId [item_id it] (wire qm'))\<rparr>)
      | (Inl e, qm') \<Rightarrow>
          pull_loop now net instanceId its
            (addedCount, qm'\<lparr>wire := snd (releaseItems net instanceId [item_id it] (wire qm'))\<rparr>))"

text \<open>\<^verbatim>\<open>pullFromRedisQueue(count)\<close>: the number of profiles added and the state. An
  exception of \<^verbatim>\<open>claimItems\<close> would be caught by the outer \<^verbatim>\<open>try\<close> and give 0.\<close>

definition pullFromRedisQueue ::
  "int \<Rightarrow> int \<Rightarrow> (request \<Rightarrow> http_outcome) \<Rightarrow> (error + connection_status) option \<Rightarrow>
   queue_manager \<Rightarrow> nat \<times> queue_manager" where
  "pullFromRedisQueue now count net steamValidator qm =
     (case redisQueueClient qm of
        None \<Rightarrow> (0, qm)
      | Some instanceId \<Rightarrow>
          if \<not> isHealthyToClaimWork steamValidator qm then (0, qm)
          else
            (let (r, w) = claimItems net instanceId count (wire qm);
                 qm1 = qm\<lparr>wire := w\<rparr>
             in case r of
                  Inl e \<Rightarrow> (0, qm1)
                | Inr items \<Rightarrow>
                    if length items = 0 then (0, qm1)
                    else pull_loop now net instanceId items (0, qm1)))"


text \<open>The calls that change the store, and a run of them from a state. The clock
  reading, the probe and the network answers are part of each call.\<close>

datatype store_call =
    AddProfile int string "string option" "(string \<Rightarrow> error + exists_check) option"
  | UpdateCheck string string string
  | RemoveProfile "request \<Rightarrow> http_outcome" string
  | ConvertDeferred

fun store_step :: "store_call \<Rightarrow> queue_manager \<Rightarrow> queue_manager" where
  "store_step (AddProfile now steamId uname apiService) qm =
     snd (addProfileToQueue now steamId uname apiService qm)"
| "store_step (UpdateCheck steamId checkName status) qm =
     snd (updateProfileCheck steamId checkName status qm)"
| "store_step (RemoveProfile net steamId) qm = snd (removeProfileFromQueue net steamId qm)"
| "store_step ConvertDeferred qm = snd (convertDeferredChecksToToCheck qm)"

definition store_run :: "store_call list \<Rightarrow> queue_manager \<Rightarrow> queue_manager" where
  "store_run calls qm = fold store_step calls qm"

text \<open>The store invariant of the specification: the keys of a profile's checks are the
  seven check names, each once, and every status is one of the four.\<close>

definition checks_complete :: "profile \<Rightarrow> bool" where
  "checks_complete p =
     (distinct (map fst (checks p)) \<and> set (map fst (checks p)) = set CHECK_NAMES \<and>
      list_all (\<lambda>status. status \<in> set validStatuses) (map snd (checks p)))"

definition statuses_closed :: "profile \<Rightarrow> bool" where
  "statuses_closed p = list_all (\<lambda>status. status \<in> set validStatuses) (map snd (checks p))"

definition store_ok :: "queue_manager \<Rightarrow> bool" where
  "store_ok qm = list_all checks_complete (readQueueProfiles qm)"

definition known_check :: "store_call \<Rightarrow> bool" where
  "known_check c = (case c of UpdateCheck steamId checkName status \<Rightarrow> checkName \<in> set CHECK_NAMES | _ \<Rightarrow> True)"

text \<open>The store right after \<^verbatim>\<open>ensureQueueFileExists\<close> created the file.\<close>

definition empty_store :: "string option \<Rightarrow> bool list \<Rightarrow> queue_manager" where
  "empty_store client plan = \<lparr>queueFile = Some [], writePlan = plan, redisQueueClient = client, wire = []\<rparr>"

section \<open>The cooldown manager (class CooldownManager)\<close>

text \<open>
  One entry of \<^verbatim>\<open>endpoint_cooldowns\<close>. JavaScript numbers that the code computes from
  an array read are optional: \<open>None\<close> is \<^verbatim>\<open>undefined\<close> for \<open>duration_minutes\<close> and
  \<^verbatim>\<open>NaN\<close> for \<open>cooldown_until\<close> (what \<^verbatim>\<open>Date.now() + undefined * 60 * 1000\<close> gives).
  A field that the record does not have is \<open>None\<close> as well.
\<close>

record cooldown =
  cooldown_until :: "int option"
  reason :: string
  backoff_level :: "int option"
  applied_at :: int
  error_message :: string
  duration_minutes :: "int option"
  duration_used :: "int option"

record durations =
  connection_reset :: int
  timeout :: int
  dns_failure :: int

text \<open>
  The manager: \<open>cooldowns\<close> is \<^verbatim>\<open>this.cooldowns.endpoint_cooldowns\<close>, an object
  whose keys are endpoint names (\<^verbatim>\<open>getEndpointName\<close> yields one of eight, none an array
  index and none \<^verbatim>\<open>__proto__\<close>), so an association list in order of creation with
  \<open>AList.update\<close> for the assignment and \<open>AList.delete\<close> for \<^verbatim>\<open>delete\<close>;
  \<open>backoffLevels\<close> is the \<^verbatim>\<open>Map\<close> of backoff levels, \<open>cooldownFile\<close> the content of
  \<^verbatim>\<open>endpoint_cooldowns.json\<close> (\<open>None\<close>: absent or unreadable), \<open>fileWritable\<close> whether
  \<^verbatim>\<open>fs.writeFileSync\<close> succeeds, \<open>saveCount\<close> the number of calls of
  \<^verbatim>\<open>saveCooldowns\<close> so far.
\<close>

record cooldown_manager =
  cooldowns :: "(string \<times> cooldown) list"
  cooldownDurations :: durations
  backoffSequence :: "int list"
  backoffLevels :: "string \<Rightarrow> int option"
  cooldownFile :: "(string \<times> cooldown) list option"
  fileWritable :: bool
  saveCount :: nat

text \<open>\<^verbatim>\<open>saveCooldowns\<close>: a failed write is logged and the manager goes on.\<close>

definition saveCooldowns :: "cooldown_manager \<Rightarrow> cooldown_manager" where
  "saveCooldowns cm =
     (if fileWritable cm
      then cm\<lparr>cooldownFile := Some (cooldowns cm), saveCount := Suc (saveCount cm)\<rparr>
      else cm\<lparr>saveCount := Suc (saveCount cm)\<rparr>)"

definition fallbackSequence :: "int list" where
  "fallbackSequence = [1, 2, 4, 8, 16, 32, 60, 120, 240, 480]"

text \<open>\<^verbatim>\<open>initializeBackoffLevelsFromFile\<close>: the level of every 429 entry with a numeric
  \<^verbatim>\<open>backoff_level\<close> goes into the table.\<close>

definition rehydrate_step :: "string \<times> cooldown \<Rightarrow> (string \<Rightarrow> int option) \<Rightarrow> (string \<Rightarrow> int option)" where
  "rehydrate_step entry levels =
     (if reason (snd entry) = ''429'' \<and> backoff_level (snd entry) \<noteq> None
      then levels(fst entry := backoff_level (snd entry))
      else levels)"

definition initializeBackoffLevelsFromFile :: "cooldown_manager \<Rightarrow> cooldown_manager" where
  "initializeBackoffLevelsFromFile cm =
     cm\<lparr>backoffLevels := fold rehydrate_step (cooldowns cm) (backoffLevels cm)\<rparr>"

text \<open>
  The constructor: \<open>file\<close> is the cooldown file found at start, \<open>seq\<close> the configured
  backoff sequence (\<open>None\<close>: missing or not an array). An absent or unreadable file gives
  \<^verbatim>\<open>createDefaultCooldowns\<close>, a file that is there \<^verbatim>\<open>ensureCooldownStructure\<close>; both
  save.
\<close>

definition CooldownManager ::
  "(string \<times> cooldown) list option \<Rightarrow> bool \<Rightarrow> durations \<Rightarrow> int list option \<Rightarrow> cooldown_manager" where
  "CooldownManager file writable cooldownDurations0 seq =
     initializeBackoffLevelsFromFile
       (saveCooldowns
          \<lparr>cooldowns = (case file of None \<Rightarrow> [] | Some cds \<Rightarrow> cds),
           cooldownDurations = cooldownDurations0,
           backoffSequence =
             (case seq of
                None \<Rightarrow> fallbackSequence
              | Some xs \<Rightarrow> if length xs = 0 then fallbackSequence else xs),
           backoffLevels = (\<lambda>endpoint. None),
           cooldownFile = file,
           fileWritable = writable,
           saveCount = 0\<rparr>)"

text \<open>\<^verbatim>\<open>cooldown.cooldown_until <= now\<close>; a comparison with \<^verbatim>\<open>NaN\<close> is false.\<close>

definition deadline_passed :: "cooldown \<Rightarrow> int \<Rightarrow> bool" where
  "deadline_passed c now = (case cooldown_until c of None \<Rightarrow> False | Some t \<Rightarrow> t \<le> now)"

text \<open>
  The loop of \<^verbatim>\<open>cleanupExpiredCooldowns\<close> over the keys that \<^verbatim>\<open>Object.keys\<close> returned
  before the loop, on the pair of \<^verbatim>\<open>cleanupCount\<close> and the manager. A key with no entry
  would throw in the source; the keys of an object all have one.
\<close>

fun cleanup_loop :: "int \<Rightarrow> string list \<Rightarrow> nat \<times> cooldown_manager \<Rightarrow> nat \<times> cooldown_manager" where
  "cleanup_loop now [] acc = acc"
| "cleanup_loop now (endpoint # rest) (cleanupCount, cm) =
     (case map_of (cooldowns cm) endpoint of
        None \<Rightarrow> cleanup_loop now rest (cleanupCount, cm)
      | Some c \<Rightarrow>
          if deadline_passed c now
          then cleanup_loop now rest
                 (Suc cleanupCount, cm\<lparr>cooldowns := AList.delete endpoint (cooldowns cm)\<rparr>)
          else cleanup_loop now rest (cleanupCount, cm))"

definition cleanupExpiredCooldowns :: "int \<Rightarrow> cooldown_manager \<Rightarrow> nat \<times> cooldown_manager" where
  "cleanupExpiredCooldowns now cm =
     (let (cleanupCount, cm') = cleanup_loop now (map fst (cooldowns cm)) (0, cm)
      in if 0 < cleanupCount then (cleanupCount, saveCooldowns cm') else (cleanupCount, cm'))"

definition isEndpointAvailable :: "int \<Rightarrow> cooldown_manager \<Rightarrow> string \<Rightarrow> bool" where
  "isEndpointAvailable now cm endpoint =
     (case map_of (cooldowns cm) endpoint of
        None \<Rightarrow> True
      | Some c \<Rightarrow> deadline_passed c now)"

text \<open>\<^verbatim>\<open>this.backoffSequence[i]\<close>: \<^verbatim>\<open>undefined\<close> outside the array.\<close>

definition seq_at :: "int list \<Rightarrow> int \<Rightarrow> int option" where
  "seq_at xs i = (if 0 \<le> i \<and> i < int (length xs) then Some (xs ! nat i) else None)"

text \<open>\<^verbatim>\<open>this.backoffLevels.get(endpoint) || 0\<close>.\<close>

definition level_or_0 :: "cooldown_manager \<Rightarrow> string \<Rightarrow> int" where
  "level_or_0 cm endpoint = (case backoffLevels cm endpoint of None \<Rightarrow> 0 | Some l \<Rightarrow> l)"

text \<open>\<^verbatim>\<open>markEndpointCooldown(endpoint, errorType, errorMessage)\<close> at clock reading
  \<open>now\<close> (the two calls of \<^verbatim>\<open>Date.now()\<close> in one branch read the same value).\<close>

definition markEndpointCooldown ::
  "int \<Rightarrow> string \<Rightarrow> string \<Rightarrow> string \<Rightarrow> cooldown_manager \<Rightarrow> cooldown_manager" where
  "markEndpointCooldown now endpoint errorType errorMessage cm =
     (if errorType = ''429'' then
        (let currentLevel = level_or_0 cm endpoint;
             newLevel = min (currentLevel + 1) (int (length (backoffSequence cm)) - 1);
             cm1 = cm\<lparr>backoffLevels := (backoffLevels cm)(endpoint \<mapsto> newLevel)\<rparr>;
             cooldownMinutes = seq_at (backoffSequence cm1) newLevel;
             cooldownDuration = map_option (\<lambda>m. m * 60 * 1000) cooldownMinutes;
             cooldownUntil = map_option (\<lambda>d. now + d) cooldownDuration
         in saveCooldowns
              (cm1\<lparr>cooldowns := AList.update endpoint
                   \<lparr>cooldown_until = cooldownUntil, reason = ''429'', backoff_level = Some newLevel,
                    applied_at = now, error_message = errorMessage,
                    duration_minutes = cooldownMinutes, duration_used = None\<rparr>
                   (cooldowns cm1)\<rparr>))
      else
        (let cooldownDuration =
               (if errorType = ''connection_error'' then connection_reset (cooldownDurations cm)
                else if errorType = ''timeout'' then timeout (cooldownDurations cm)
                else if errorType = ''dns_failure'' then dns_failure (cooldownDurations cm)
                else 60000);
             cooldownUntil = now + cooldownDuration
         in saveCooldowns
              (cm\<lparr>cooldowns := AList.update endpoint
                   \<lparr>cooldown_until = Some cooldownUntil, reason = errorType, backoff_level = None,
                    applied_at = now, error_message = errorMessage,
                    duration_minutes = None, duration_used = Some cooldownDuration\<rparr>
                   (cooldowns cm)\<rparr>)))"

definition resetBackoffOnSuccess :: "string \<Rightarrow> cooldown_manager \<Rightarrow> cooldown_manager" where
  "resetBackoffOnSuccess endpoint cm =
     (let hadBackoffLevel = (backoffLevels cm endpoint \<noteq> None);
          cm1 = (if hadBackoffLevel then cm\<lparr>backoffLevels := (backoffLevels cm)(endpoint := None)\<rparr>
                 else cm)
      in case map_of (cooldowns cm1) endpoint of
           None \<Rightarrow> cm1
         | Some c \<Rightarrow>
             if reason c = ''429''
             then saveCooldowns (cm1\<lparr>cooldowns := AList.delete endpoint (cooldowns cm1)\<rparr>)
             else cm1)"

definition isEndpointInCooldown :: "int \<Rightarrow> string \<Rightarrow> cooldown_manager \<Rightarrow> bool \<times> cooldown_manager" where
  "isEndpointInCooldown now endpoint cm =
     (let cm' = snd (cleanupExpiredCooldowns now cm)
      in (\<not> isEndpointAvailable now cm' endpoint, cm'))"

definition getNextAvailableTimeForEndpoint :: "int \<Rightarrow> cooldown_manager \<Rightarrow> string \<Rightarrow> int option" where
  "getNextAvailableTimeForEndpoint now cm endpoint =
     (case map_of (cooldowns cm) endpoint of
        None \<Rightarrow> Some 0
      | Some c \<Rightarrow> map_option (\<lambda>t. max 0 (t - now)) (cooldown_until c))"

definition allEndpoints :: "string list" where
  "allEndpoints = [''friends'', ''inventory'', ''steam_level'', ''animated_avatar'',
     ''avatar_frame'', ''mini_profile_background'', ''profile_background'']"

text \<open>\<^verbatim>\<open>getConnectionStatus\<close>, without the display fields (\<^verbatim>\<open>index\<close>, \<^verbatim>\<open>type\<close>,
  \<^verbatim>\<open>url\<close>, \<^verbatim>\<open>until\<close>) of the single connection.\<close>

definition endpoint_state_of :: "int \<Rightarrow> cooldown_manager \<Rightarrow> string \<Rightarrow> endpoint_state" where
  "endpoint_state_of now cm endpoint =
     (case map_of (cooldowns cm) endpoint of
        None \<Rightarrow> Available
      | Some c \<Rightarrow>
          if deadline_passed c now then Available
          else InCooldown (map_option (\<lambda>t. max 0 (t - now)) (cooldown_until c)) (reason c))"

definition getConnectionStatus :: "int \<Rightarrow> cooldown_manager \<Rightarrow> connection_status \<times> cooldown_manager" where
  "getConnectionStatus now cm =
     (let cm' = snd (cleanupExpiredCooldowns now cm)
      in (\<lparr>availableEndpoints =
             length (filter (\<lambda>endpoint. endpoint_state_of now cm' endpoint = Available) allEndpoints),
           totalEndpoints = length allEndpoints,
           endpointCooldowns = map (\<lambda>endpoint. (endpoint, endpoint_state_of now cm' endpoint)) allEndpoints,
           endpointSummary =
             map (\<lambda>endpoint.
                    (endpoint,
                     \<lparr>availableConnections = (if isEndpointAvailable now cm' endpoint then 1 else 0),
                      totalConnections = 1,
                      nextAvailableIn =
                        (if isEndpointAvailable now cm' endpoint then Some 0
                         else getNextAvailableTimeForEndpoint now cm' endpoint)\<rparr>))
                 allEndpoints\<rparr>, cm'))"

text \<open>The calls that change a cooldown manager, and a run of them.\<close>

datatype cooldown_call =
    MarkEndpointCooldown int string string string
  | ResetBackoffOnSuccess string
  | CleanupExpiredCooldowns int
  | IsEndpointInCooldown int string
  | GetConnectionStatus int

fun cooldown_step :: "cooldown_call \<Rightarrow> cooldown_manager \<Rightarrow> cooldown_manager" where
  "cooldown_step (MarkEndpointCooldown now endpoint errorType errorMessage) cm =
     markEndpointCooldown now endpoint errorType errorMessage cm"
| "cooldown_step (ResetBackoffOnSuccess endpoint) cm = resetBackoffOnSuccess endpoint cm"
| "cooldown_step (CleanupExpiredCooldowns now) cm = snd (cleanupExpiredCooldowns now cm)"
| "cooldown_step (IsEndpointInCooldown now endpoint) cm = snd (isEndpointInCooldown now endpoint cm)"
| "cooldown_step (GetConnectionStatus now) cm = snd (getConnectionStatus now cm)"

definition cooldown_run :: "cooldown_call list \<Rightarrow> cooldown_manager \<Rightarrow> cooldown_manager" where
  "cooldown_run calls cm = fold cooldown_step calls cm"

text \<open>Whether a call is a 429 mark of the endpoint, and how many of a run are.\<close>

fun is_mark_429 :: "string \<Rightarrow> cooldown_call \<Rightarrow> bool" where
  "is_mark_429 e (MarkEndpointCooldown now endpoint errorType errorMessage) =
     (endpoint = e \<and> errorType = ''429'')"
| "is_mark_429 e c = False"

definition count_429 :: "string \<Rightarrow> cooldown_call list \<Rightarrow> nat" where
  "count_429 e calls = length (filter (is_mark_429 e) calls)"

section \<open>Notions used in the statements\<close>

text \<open>Whether the next call of \<^verbatim>\<open>fs.writeFile\<close> succeeds.\<close>

definition next_write_ok :: "queue_manager \<Rightarrow> bool" where
  "next_write_ok qm = (case writePlan qm of [] \<Rightarrow> True | ok # rest \<Rightarrow> ok)"

text \<open>A property of every profile that a read of the queue file returns.\<close>

definition all_profiles :: "(profile \<Rightarrow> bool) \<Rightarrow> queue_manager \<Rightarrow> bool" where
  "all_profiles P qm = list_all P (readQueueProfiles qm)"

text \<open>\<^verbatim>\<open>profiles.findIndex(p => p.steam_id === steamId) !== -1\<close>.\<close>

definition profile_in_store :: "string \<Rightarrow> queue_manager \<Rightarrow> bool" where
  "profile_in_store steamId qm = list_ex (\<lambda>p. steam_id p = steamId) (readQueueProfiles qm)"

text \<open>The profile after \<^verbatim>\<open>profile.checks[checkName] = status\<close>.\<close>

definition with_check :: "string \<Rightarrow> string \<Rightarrow> profile \<Rightarrow> profile" where
  "with_check checkName status p = p\<lparr>checks := js_set checkName status (checks p)\<rparr>"

text \<open>An entry that the cleanup loop removes while it walks the keys \<open>ks\<close>.\<close>

definition expired_in :: "int \<Rightarrow> string list \<Rightarrow> string \<times> cooldown \<Rightarrow> bool" where
  "expired_in now ks x = (fst x \<in> set ks \<and> deadline_passed (snd x) now)"

text \<open>The success criterion in the words of the specification: status 200 and a parsed
  body with a truthy \<^verbatim>\<open>success\<close>. It is compared with \<open>makeRequest\<close> below.\<close>

definition is_success :: "http_outcome \<Rightarrow> bool" where
  "is_success out =
     (case out of
        HttpResponse statusCode body \<Rightarrow>
          (case body of None \<Rightarrow> False | Some parsed \<Rightarrow> statusCode = 200 \<and> resp_success parsed)
      | _ \<Rightarrow> False)"

text \<open>The body that counts as a success, in the same words: the parsed body when the
  status is 200 and its \<^verbatim>\<open>success\<close> is truthy, nothing otherwise.\<close>

definition success_body :: "http_outcome \<Rightarrow> response option" where
  "success_body out =
     (case out of
        HttpResponse statusCode body \<Rightarrow>
          (case body of
             None \<Rightarrow> None
           | Some parsed \<Rightarrow> if statusCode = 200 \<and> resp_success parsed then Some parsed else None)
      | _ \<Rightarrow> None)"

text \<open>What the add of each claimed item returns when the items are added in order, each
  on the store the previous add left.\<close>

fun add_outcomes :: "int \<Rightarrow> item list \<Rightarrow> queue_manager \<Rightarrow> (item \<times> (error + profile option)) list" where
  "add_outcomes now [] qm = []"
| "add_outcomes now (it # its) qm =
     (it, fst (addProfileToQueue now (item_id it) (item_username it) None qm))
     # add_outcomes now its (snd (addProfileToQueue now (item_id it) (item_username it) None qm))"

text \<open>An add that returned \<^verbatim>\<open>null\<close> or threw.\<close>

definition null_or_failed :: "error + profile option \<Rightarrow> bool" where
  "null_or_failed r = (case r of Inl e \<Rightarrow> True | Inr None \<Rightarrow> True | Inr (Some p) \<Rightarrow> False)"

text \<open>One release request, of that item alone, for every add that returned \<^verbatim>\<open>null\<close>
  or threw.\<close>

definition releases_of :: "string \<Rightarrow> (item \<times> (error + profile option)) list \<Rightarrow> request list" where
  "releases_of instanceId outcomes =
     map (\<lambda>x. ReleaseReq instanceId [item_id (fst x)]) (filter (\<lambda>x. null_or_failed (snd x)) outcomes)"

section \<open>Concrete stores, managers and networks\<close>

text \<open>A store holding the one profile \<^verbatim>\<open>A\<close>, and an update that names no check of it.\<close>

definition store_A :: queue_manager where
  "store_A = store_run [AddProfile 0 ''A'' (Some ''alice'') None] (empty_store None [])"

definition bogus_update :: store_call where
  "bogus_update = UpdateCheck ''A'' ''no_such_check'' ''passed''"

definition example_durations :: durations where
  "example_durations = \<lparr>connection_reset = 30000, timeout = 60000, dns_failure = 120000\<rparr>"

text \<open>A manager built with no cooldown file and the backoff sequence \<open>[1, 2, 4]\<close>, then
  one 429 on \<^verbatim>\<open>friends\<close> at time 0, then a timeout on \<^verbatim>\<open>inventory\<close> at time 5.\<close>

definition fresh_manager :: cooldown_manager where
  "fresh_manager = CooldownManager None True example_durations (Some [1, 2, 4])"

definition marked_once :: cooldown_manager where
  "marked_once = markEndpointCooldown 0 ''friends'' ''429'' ''rate limited'' fresh_manager"

definition marked_twice :: cooldown_manager where
  "marked_twice = markEndpointCooldown 5 ''inventory'' ''timeout'' ''timeout of 25000ms exceeded'' marked_once"

text \<open>A queue service that answers 200 with statistics and a released count, and no
  items.\<close>

definition net_stats :: "request \<Rightarrow> http_outcome" where
  "net_stats req = HttpResponse 200
     (Some \<lparr>resp_success = True, resp_items = None, resp_stats = Some ''{pending: 7}'',
            resp_released_count = Some 3\<rparr>)"

text \<open>A queue service that times out, and one that answers 500.\<close>

definition net_down :: "request \<Rightarrow> http_outcome" where
  "net_down req = RequestTimeout"

definition net_500 :: "request \<Rightarrow> http_outcome" where
  "net_500 req = HttpResponse 500
     (Some \<lparr>resp_success = True, resp_items = Some [], resp_stats = None, resp_released_count = Some 3\<rparr>)"

text \<open>The same store with a queue client, and queue services that hand out \<^verbatim>\<open>A\<close>, or
  \<^verbatim>\<open>A\<close> and \<^verbatim>\<open>B\<close>.\<close>

definition store_A_client :: queue_manager where
  "store_A_client = \<lparr>queueFile = Some [new_profile 0 ''A'' ''alice''], writePlan = [],
     redisQueueClient = Some ''w1'', wire = []\<rparr>"

definition net_claims_A :: "request \<Rightarrow> http_outcome" where
  "net_claims_A req = HttpResponse 200
     (Some \<lparr>resp_success = True,
            resp_items = Some [\<lparr>item_id = ''A'', item_username = Some ''alice''\<rparr>],
            resp_stats = None, resp_released_count = None\<rparr>)"

definition net_claims_AB :: "request \<Rightarrow> http_outcome" where
  "net_claims_AB req = HttpResponse 200
     (Some \<lparr>resp_success = True,
            resp_items = Some [\<lparr>item_id = ''A'', item_username = Some ''alice''\<rparr>,
                               \<lparr>item_id = ''B'', item_username = None\<rparr>],
            resp_stats = None, resp_released_count = None\<rparr>)"

text \<open>An empty store whose second write fails.\<close>

definition store_failing_second_write :: queue_manager where
  "store_failing_second_write = empty_store (Some ''w1'') [True, False]"

text \<open>A queue service that hands out \<^verbatim>\<open>A\<close> twice, an empty store with a client, and
  that store after a pull of \<^verbatim>\<open>A\<close> at time 3.\<close>

definition net_claims_AA :: "request \<Rightarrow> http_outcome" where
  "net_claims_AA req = HttpResponse 200
     (Some \<lparr>resp_success = True,
            resp_items = Some [\<lparr>item_id = ''A'', item_username = Some ''alice''\<rparr>,
                               \<lparr>item_id = ''A'', item_username = Some ''alice''\<rparr>],
            resp_stats = None, resp_released_count = None\<rparr>)"

definition store_empty_client :: queue_manager where
  "store_empty_client = empty_store (Some ''w1'') []"


definition profile_deferred :: profile where
  "profile_deferred = \<lparr>steam_id = ''D'', username = ''dora'', timestamp = 1,
     checks = [(''animated_avatar'', ''passed''), (''avatar_frame'', ''passed''),
               (''mini_profile_background'', ''passed''), (''profile_background'', ''passed''),
               (''steam_level'', ''passed''), (''friends'', ''deferred''),
               (''csgo_inventory'', ''passed'')]\<rparr>"

definition store_of :: "profile list \<Rightarrow> queue_manager" where
  "store_of ps = \<lparr>queueFile = Some ps, writePlan = [], redisQueueClient = Some ''w1'', wire = []\<rparr>"


definition store_deferred :: queue_manager where
  "store_deferred = store_of [profile_deferred]"

definition no_status :: connection_status where
  "no_status = \<lparr>availableEndpoints = 0, totalEndpoints = 0, endpointCooldowns = [], endpointSummary = []\<rparr>"

section \<open>The check store: updates and the invariant\<close>

lemma findIndex_None: "findIndex P xs = None \<longleftrightarrow> \<not> list_ex P xs"
  by (induction xs) auto

lemma findIndex_Some: "findIndex P xs = Some i \<Longrightarrow> i < length xs \<and> P (xs ! i) \<and> find P xs = Some (xs ! i)"
  by (induction xs arbitrary: i) (auto split: if_splits)

lemma write_fst: "fst (writeQueueProfiles ps qm) = next_write_ok qm"
  by (auto simp: writeQueueProfiles_def next_write_ok_def split: list.splits)

lemma write_file: "queueFile (snd (writeQueueProfiles ps qm)) = (if next_write_ok qm then Some ps else queueFile qm)"
  by (auto simp: writeQueueProfiles_def next_write_ok_def split: list.splits)

lemma write_read: "readQueueProfiles (snd (writeQueueProfiles ps qm)) = (if next_write_ok qm then ps else readQueueProfiles qm)"
  by (simp add: readQueueProfiles_def write_file)

lemma write_other: "redisQueueClient (snd (writeQueueProfiles ps qm)) = redisQueueClient qm"
  "wire (snd (writeQueueProfiles ps qm)) = wire qm"
  by (auto simp: writeQueueProfiles_def split: list.splits)

lemma js_set_own: "map_of al k = Some old \<Longrightarrow> js_set k v al = AList.update k v al"
  by (simp add: js_set_def)

lemma js_set_keys_own: "k \<in> fst ` set al \<Longrightarrow> map fst (js_set k v al) = map fst al"
proof -
  assume k: "k \<in> fst ` set al"
  then obtain old where "map_of al k = Some old"
    by (cases "map_of al k") (simp_all add: map_of_eq_None_iff)
  then show ?thesis using k by (simp add: js_set_own update_keys)
qed

lemma insert_index_set: "set (insert_index k v al) = insert (k, v) (set al)"
  by (induction al) auto

lemma map_of_insert_index: "map_of (insert_index k v al) = (map_of al)(k \<mapsto> v)"
proof (induction al)
  case Nil
  then show ?case by simp
next
  case (Cons entry rest)
  show ?case
  proof (cases "is_array_index (fst entry) \<and> digits_value (fst entry) < digits_value k")
    case True
    then have "fst entry \<noteq> k" by auto
    then show ?thesis using True Cons by (cases entry) (auto simp: fun_eq_iff)
  next
    case False
    then show ?thesis by (cases entry) auto
  qed
qed

lemma map_of_append_new: "map_of al k = None \<Longrightarrow> map_of (al @ [(k, v)]) = (map_of al)(k \<mapsto> v)"
  by (rule ext) (auto simp: map_add_def split: option.splits)

lemma map_of_js_set:
  "map_of (js_set k v al) =
     (if map_of al k = None \<and> k = ''__proto__'' then map_of al else (map_of al)(k \<mapsto> v))"
proof (cases "map_of al k")
  case None
  then show ?thesis
    by (simp add: js_set_def map_of_insert_index map_of_append_new del: map_of_append)
next
  case (Some old)
  then show ?thesis by (simp add: js_set_def update_conv')
qed

lemma update_values: "b \<in> snd ` set (AList.update k v al) \<Longrightarrow> b = v \<or> b \<in> snd ` set al"
  by (induction al) (auto split: if_splits)

lemma js_set_values: "b \<in> snd ` set (js_set k v al) \<Longrightarrow> b = v \<or> b \<in> snd ` set al"
proof (cases "map_of al k")
  case None
  assume "b \<in> snd ` set (js_set k v al)"
  then show ?thesis using None
    by (auto simp: js_set_def insert_index_set split: if_splits)
next
  case (Some old)
  assume "b \<in> snd ` set (js_set k v al)"
  then have "b \<in> snd ` set (AList.update k v al)" using Some by (simp add: js_set_own)
  then show ?thesis by (rule update_values)
qed

text \<open>The assignment at work: an own key, a new name, \<^verbatim>\<open>__proto__\<close>, a new array index
  and a numeral that is not canonical.\<close>

lemma js_set_examples:
  "js_set ''friends'' ''passed'' [(''steam_level'', ''to_check''), (''friends'', ''to_check'')]
     = [(''steam_level'', ''to_check''), (''friends'', ''passed'')]"
  "js_set ''extra'' ''passed'' [(''friends'', ''to_check'')] = [(''friends'', ''to_check''), (''extra'', ''passed'')]"
  "js_set ''__proto__'' ''passed'' [(''friends'', ''to_check'')] = [(''friends'', ''to_check'')]"
  "js_set ''7'' ''passed'' [(''2'', ''failed''), (''10'', ''failed''), (''friends'', ''to_check'')]
     = [(''2'', ''failed''), (''7'', ''passed''), (''10'', ''failed''), (''friends'', ''to_check'')]"
  "js_set ''007'' ''passed'' [(''2'', ''failed''), (''friends'', ''to_check'')]
     = [(''2'', ''failed''), (''friends'', ''to_check''), (''007'', ''passed'')]"
  by code_simp+

lemma checks_complete_new: "checks_complete (new_profile now i n)"
  by (simp add: checks_complete_def new_profile_def CHECK_NAMES_def validStatuses_def)

lemma checks_complete_update:
  assumes "checks_complete p" "k \<in> set CHECK_NAMES" "v \<in> set validStatuses"
  shows "checks_complete (p\<lparr>checks := js_set k v (checks p)\<rparr>)"
proof -
  have k: "k \<in> fst ` set (checks p)" using assms by (simp add: checks_complete_def)
  then have keys: "map fst (js_set k v (checks p)) = map fst (checks p)"
    by (simp add: js_set_keys_own)
  have old: "\<forall>b \<in> snd ` set (checks p). b \<in> set validStatuses"
    using assms(1) by (simp add: checks_complete_def list_all_iff)
  have "b \<in> set validStatuses" if "b \<in> snd ` set (js_set k v (checks p))" for b
  proof -
    have "b = v \<or> b \<in> snd ` set (checks p)" using that by (rule js_set_values)
    then show ?thesis
    proof
      assume "b = v" then show ?thesis using assms by simp
    next
      assume "b \<in> snd ` set (checks p)" then show ?thesis using old by blast
    qed
  qed
  then have "\<forall>b \<in> snd ` set (js_set k v (checks p)). b \<in> set validStatuses" by simp
  then show ?thesis using assms(1) keys by (simp add: checks_complete_def list_all_iff)
qed

lemma statuses_closed_update:
  assumes "statuses_closed p" "v \<in> set validStatuses"
  shows "statuses_closed (p\<lparr>checks := js_set k v (checks p)\<rparr>)"
proof -
  have old: "\<forall>b \<in> snd ` set (checks p). b \<in> set validStatuses"
    using assms(1) by (simp add: statuses_closed_def list_all_iff)
  have "b \<in> set validStatuses" if "b \<in> snd ` set (js_set k v (checks p))" for b
  proof -
    have "b = v \<or> b \<in> snd ` set (checks p)" using that by (rule js_set_values)
    then show ?thesis
    proof
      assume "b = v" then show ?thesis using assms by simp
    next
      assume "b \<in> snd ` set (checks p)" then show ?thesis using old by blast
    qed
  qed
  then have "\<forall>b \<in> snd ` set (js_set k v (checks p)). b \<in> set validStatuses" by simp
  then show ?thesis by (simp add: statuses_closed_def list_all_iff)
qed

lemma convert_step_deferred:
  "snd e = ''deferred'' \<Longrightarrow> convert_step e (cs, n) = (js_set (fst e) ''to_check'' cs, Suc n)"
  by (simp add: convert_step_def)

lemma convert_step_other: "snd e \<noteq> ''deferred'' \<Longrightarrow> convert_step e acc = acc"
  by (simp add: convert_step_def)

lemma fold_convert_keys:
  "fst ` set es \<subseteq> fst ` set cs \<Longrightarrow> map fst (fst (fold convert_step es (cs, n))) = map fst cs"
proof (induction es arbitrary: cs n)
  case Nil
  then show ?case by simp
next
  case (Cons e es)
  show ?case
  proof (cases "snd e = ''deferred''")
    case False
    then show ?thesis using Cons by (simp add: convert_step_other)
  next
    case True
    let ?cs = "js_set (fst e) ''to_check'' cs"
    have k: "map fst ?cs = map fst cs" using Cons.prems by (simp add: js_set_keys_own)
    have "fst ` set ?cs = fst ` set cs" using arg_cong[OF k, of set] by simp
    then have "fst ` set es \<subseteq> fst ` set ?cs" using Cons.prems by simp
    from Cons.IH[OF this, of "Suc n"] k
    show ?thesis using True by (simp add: convert_step_deferred)
  qed
qed

lemma fold_convert_values:
  "b \<in> snd ` set (fst (fold convert_step es (cs, n))) \<Longrightarrow> b = ''to_check'' \<or> b \<in> snd ` set cs"
proof (induction es arbitrary: cs n)
  case Nil
  then show ?case by simp
next
  case (Cons e es)
  show ?case
  proof (cases "snd e = ''deferred''")
    case False
    then show ?thesis using Cons by (simp add: convert_step_other)
  next
    case True
    then have "b \<in> snd ` set (fst (fold convert_step es (js_set (fst e) ''to_check'' cs, Suc n)))"
      using Cons.prems by (simp add: convert_step_deferred)
    then have "b = ''to_check'' \<or> b \<in> snd ` set (js_set (fst e) ''to_check'' cs)"
      by (rule Cons.IH)
    then show ?thesis
    proof
      assume "b = ''to_check''" then show ?thesis by simp
    next
      assume "b \<in> snd ` set (js_set (fst e) ''to_check'' cs)"
      then show ?thesis by (rule js_set_values)
    qed
  qed
qed

lemma checks_convert: "checks (fst (convert_profile p)) = fst (fold convert_step (checks p) (checks p, 0))"
  by (simp add: convert_profile_def split_beta)

lemma checks_complete_convert:
  assumes "checks_complete p" shows "checks_complete (fst (convert_profile p))"
proof -
  have keys: "map fst (checks (fst (convert_profile p))) = map fst (checks p)"
    by (simp add: checks_convert fold_convert_keys)
  have old: "\<forall>b \<in> snd ` set (checks p). b \<in> set validStatuses"
    using assms by (simp add: checks_complete_def list_all_iff)
  have tc: "''to_check'' \<in> set validStatuses" by (simp add: validStatuses_def)
  have "b \<in> set validStatuses" if "b \<in> snd ` set (checks (fst (convert_profile p)))" for b
  proof -
    have "b = ''to_check'' \<or> b \<in> snd ` set (checks p)"
      using that unfolding checks_convert by (rule fold_convert_values)
    then show ?thesis
    proof
      assume "b = ''to_check''" then show ?thesis using tc by simp
    next
      assume "b \<in> snd ` set (checks p)" then show ?thesis using old by blast
    qed
  qed
  then have "\<forall>b \<in> snd ` set (checks (fst (convert_profile p))). b \<in> set validStatuses" by simp
  then show ?thesis using assms keys by (simp add: checks_complete_def list_all_iff)
qed

lemma statuses_closed_convert:
  assumes "statuses_closed p" shows "statuses_closed (fst (convert_profile p))"
proof -
  have old: "\<forall>b \<in> snd ` set (checks p). b \<in> set validStatuses"
    using assms by (simp add: statuses_closed_def list_all_iff)
  have tc: "''to_check'' \<in> set validStatuses" by (simp add: validStatuses_def)
  have "b \<in> set validStatuses" if "b \<in> snd ` set (checks (fst (convert_profile p)))" for b
  proof -
    have "b = ''to_check'' \<or> b \<in> snd ` set (checks p)"
      using that unfolding checks_convert by (rule fold_convert_values)
    then show ?thesis
    proof
      assume "b = ''to_check''" then show ?thesis using tc by simp
    next
      assume "b \<in> snd ` set (checks p)" then show ?thesis using old by blast
    qed
  qed
  then have "\<forall>b \<in> snd ` set (checks (fst (convert_profile p))). b \<in> set validStatuses" by simp
  then show ?thesis by (simp add: statuses_closed_def list_all_iff)
qed

lemma insert_profile_all:
  "list_all P profiles \<Longrightarrow> all_profiles P qm \<Longrightarrow> P (new_profile now i (fix_username u)) \<Longrightarrow>
   all_profiles P (snd (insert_profile now i u profiles qm))"
  by (simp add: insert_profile_def all_profiles_def Let_def split_beta write_read)

lemma add_all:
  assumes "all_profiles P qm" and "\<And>n. P (new_profile now i n)"
  shows "all_profiles P (snd (addProfileToQueue now i u api qm))"
proof -
  have ins: "all_profiles P (snd (insert_profile now i u (readQueueProfiles qm) qm))"
    using assms by (intro insert_profile_all) (simp_all add: all_profiles_def)
  show ?thesis
    using ins assms(1)
    by (simp add: addProfileToQueue_def Let_def split: option.splits sum.splits)
qed

lemma update_all:
  assumes "all_profiles P qm"
    and "\<And>p. P p \<Longrightarrow> v \<in> set validStatuses \<Longrightarrow> P (p\<lparr>checks := js_set k v (checks p)\<rparr>)"
  shows "all_profiles P (snd (updateProfileCheck i k v qm))"
proof (cases "findIndex (\<lambda>p. steam_id p = i) (readQueueProfiles qm)")
  case None
  then show ?thesis using assms by (simp add: updateProfileCheck_def)
next
  case (Some n)
  have n: "n < length (readQueueProfiles qm)" using findIndex_Some[OF Some] by simp
  then have "P (readQueueProfiles qm ! n)" using assms(1) by (simp add: all_profiles_def list_all_length)
  then show ?thesis using Some assms n
    by (auto simp: updateProfileCheck_def Let_def split_beta write_read all_profiles_def list_all_iff
             dest!: set_update_subset_insert[THEN subsetD])
qed

lemma remove_all:
  "all_profiles P qm \<Longrightarrow> all_profiles P (snd (removeProfileFromQueue net i qm))"
  by (auto simp: removeProfileFromQueue_def Let_def split_beta write_read all_profiles_def
      readQueueProfiles_def write_file list_all_iff split: option.splits)

lemma convert_all:
  "all_profiles P qm \<Longrightarrow> (\<And>p. P p \<Longrightarrow> P (fst (convert_profile p))) \<Longrightarrow>
   all_profiles P (snd (convertDeferredChecksToToCheck qm))"
  by (auto simp: convertDeferredChecksToToCheck_def Let_def split_beta write_read all_profiles_def list_all_iff)

lemma step_complete:
  assumes "known_check c" "all_profiles checks_complete qm"
  shows "all_profiles checks_complete (store_step c qm)"
proof (cases c)
  case (AddProfile now i u api)
  then show ?thesis using assms(2) by (simp add: add_all checks_complete_new)
next
  case (UpdateCheck i k v)
  then have "k \<in> set CHECK_NAMES" using assms(1) by (simp add: known_check_def)
  then show ?thesis using assms(2) UpdateCheck by (simp add: update_all checks_complete_update)
next
  case (RemoveProfile net i)
  then show ?thesis using assms(2) by (simp add: remove_all)
next
  case ConvertDeferred
  then show ?thesis using assms(2) by (simp add: convert_all checks_complete_convert)
qed

lemma statuses_closed_new: "statuses_closed (new_profile now i n)"
  by (simp add: statuses_closed_def new_profile_def validStatuses_def)

lemma step_closed:
  assumes "all_profiles statuses_closed qm"
  shows "all_profiles statuses_closed (store_step c qm)"
proof (cases c)
  case (AddProfile now i u api)
  then show ?thesis using assms by (simp add: add_all statuses_closed_new)
next
  case (UpdateCheck i k v)
  then show ?thesis using assms by (simp add: update_all statuses_closed_update)
next
  case (RemoveProfile net i)
  then show ?thesis using assms by (simp add: remove_all)
next
  case ConvertDeferred
  then show ?thesis using assms by (simp add: convert_all statuses_closed_convert)
qed

lemma run_complete:
  "list_all known_check calls \<Longrightarrow> all_profiles checks_complete qm \<Longrightarrow>
   all_profiles checks_complete (fold store_step calls qm)"
  by (induction calls arbitrary: qm) (simp_all add: step_complete)

lemma run_closed:
  "all_profiles statuses_closed qm \<Longrightarrow> all_profiles statuses_closed (fold store_step calls qm)"
  by (induction calls arbitrary: qm) (simp_all add: step_closed)

text \<open>
  C5, as amended. The store created empty satisfies the invariant (the keys of every
  profile's checks are the seven check names, each once, and every status is one of the
  four). Every run of \<^verbatim>\<open>addProfileToQueue\<close>, \<^verbatim>\<open>removeProfileFromQueue\<close>,
  \<^verbatim>\<open>convertDeferredChecksToToCheck\<close> and of \<^verbatim>\<open>updateProfileCheck\<close> with a check name
  among the seven preserves it. That every status is one of the four is preserved by every
  run, whatever the check names.
\<close>

theorem store_invariant_preserved:
  "store_ok (empty_store client plan) \<and>
   (list_all known_check calls \<and> store_ok qm \<longrightarrow> store_ok (store_run calls qm)) \<and>
   (list_all known_check calls \<longrightarrow> store_ok (store_run calls (empty_store client plan))) \<and>
   (list_all statuses_closed (readQueueProfiles qm) \<longrightarrow>
      list_all statuses_closed (readQueueProfiles (store_run calls' qm)))"
proof -
  have e: "all_profiles checks_complete (empty_store client plan)"
    by (simp add: all_profiles_def empty_store_def readQueueProfiles_def)
  show ?thesis
    using e run_complete[of calls qm] run_complete[of calls "empty_store client plan"]
      run_closed[of qm calls']
    by (simp add: store_ok_def store_run_def all_profiles_def)
qed

text \<open>From a store that satisfies the invariant, an update with a name outside the seven
  leaves a profile with eight keys.\<close>

theorem store_invariant_counterexample:
  "store_ok store_A \<and> \<not> store_ok (store_run [bogus_update] store_A)"
  by code_simp

text \<open>An add, a deferral of \<^verbatim>\<open>friends\<close> and the sweep, from the empty store.\<close>

theorem store_invariant_witness:
  "store_ok (empty_store None []) \<and>
   list_all known_check [AddProfile 0 ''A'' (Some ''alice'') None, UpdateCheck ''A'' ''friends'' ''deferred'', ConvertDeferred] \<and>
   store_ok (store_run [AddProfile 0 ''A'' (Some ''alice'') None, UpdateCheck ''A'' ''friends'' ''deferred'', ConvertDeferred] (empty_store None []))"
  using store_invariant_preserved[of None "[]" "[AddProfile 0 ''A'' (Some ''alice'') None, UpdateCheck ''A'' ''friends'' ''deferred'', ConvertDeferred]" "empty_store None []" "[]"]
  by (simp add: known_check_def CHECK_NAMES_def)

text \<open>An update that names a check the profile does not have returns \<^verbatim>\<open>true\<close>.\<close>

theorem updateProfileCheck_counterexample:
  "map_of (checks (new_profile 0 ''A'' ''alice'')) ''no_such_check'' = None \<and>
   readQueueProfiles store_A = [new_profile 0 ''A'' ''alice''] \<and>
   fst (updateProfileCheck ''A'' ''no_such_check'' ''passed'' store_A) = True"
  by code_simp

text \<open>
  C4, as amended. \<^verbatim>\<open>updateProfileCheck\<close> returns \<^verbatim>\<open>true\<close> exactly when a profile
  with that id is stored, the status is one of the four and the save succeeds. When the
  profile is missing or the status is not one of the four the state is unchanged. When the
  result is \<^verbatim>\<open>true\<close> the file holds the profiles as before, except that the first
  profile with that id has gone through \<^verbatim>\<open>checks[checkName] = status\<close>. Nothing is asked
  of \<^verbatim>\<open>checkName\<close>: the assignment overwrites a key the checks have and creates one they
  do not have, and every other key keeps its status; only \<^verbatim>\<open>__proto__\<close>, when it is not
  a key of the checks, is not created, and the profile is then as before.
\<close>

theorem updateProfileCheck_outcome:
  "fst (updateProfileCheck steamId checkName status qm) =
     (profile_in_store steamId qm \<and> status \<in> set validStatuses \<and> next_write_ok qm)
   \<and> (\<not> (profile_in_store steamId qm \<and> status \<in> set validStatuses) \<longrightarrow>
        snd (updateProfileCheck steamId checkName status qm) = qm)
   \<and> (fst (updateProfileCheck steamId checkName status qm) \<longrightarrow>
        (\<exists>i. findIndex (\<lambda>p. steam_id p = steamId) (readQueueProfiles qm) = Some i \<and>
             i < length (readQueueProfiles qm) \<and>
             readQueueProfiles (snd (updateProfileCheck steamId checkName status qm)) =
               (readQueueProfiles qm)[i := with_check checkName status (readQueueProfiles qm ! i)]))
   \<and> (map_of (checks p) checkName \<noteq> None \<or> checkName \<noteq> ''__proto__'' \<longrightarrow>
        map_of (checks (with_check checkName status p)) checkName = Some status)
   \<and> (map_of (checks p) checkName = None \<and> checkName = ''__proto__'' \<longrightarrow>
        with_check checkName status p = p)
   \<and> (other \<noteq> checkName \<longrightarrow>
        map_of (checks (with_check checkName status p)) other = map_of (checks p) other)"
proof -
  have w: "(map_of (checks p) checkName \<noteq> None \<or> checkName \<noteq> ''__proto__'' \<longrightarrow>
        map_of (checks (with_check checkName status p)) checkName = Some status)
   \<and> (map_of (checks p) checkName = None \<and> checkName = ''__proto__'' \<longrightarrow>
        with_check checkName status p = p)
   \<and> (other \<noteq> checkName \<longrightarrow>
        map_of (checks (with_check checkName status p)) other = map_of (checks p) other)"
  proof (intro conjI)
    show "map_of (checks p) checkName \<noteq> None \<or> checkName \<noteq> ''__proto__'' \<longrightarrow>
        map_of (checks (with_check checkName status p)) checkName = Some status"
      by (auto simp: with_check_def map_of_js_set)
    show "map_of (checks p) checkName = None \<and> checkName = ''__proto__'' \<longrightarrow>
        with_check checkName status p = p"
      by (auto simp: with_check_def js_set_def)
    show "other \<noteq> checkName \<longrightarrow>
        map_of (checks (with_check checkName status p)) other = map_of (checks p) other"
      by (simp add: with_check_def map_of_js_set)
  qed
  have u: "fst (updateProfileCheck steamId checkName status qm) =
     (profile_in_store steamId qm \<and> status \<in> set validStatuses \<and> next_write_ok qm)
   \<and> (\<not> (profile_in_store steamId qm \<and> status \<in> set validStatuses) \<longrightarrow>
        snd (updateProfileCheck steamId checkName status qm) = qm)
   \<and> (fst (updateProfileCheck steamId checkName status qm) \<longrightarrow>
        (\<exists>i. findIndex (\<lambda>p. steam_id p = steamId) (readQueueProfiles qm) = Some i \<and>
             i < length (readQueueProfiles qm) \<and>
             readQueueProfiles (snd (updateProfileCheck steamId checkName status qm)) =
               (readQueueProfiles qm)[i := with_check checkName status (readQueueProfiles qm ! i)]))"
  proof (cases "findIndex (\<lambda>p. steam_id p = steamId) (readQueueProfiles qm)")
    case None
    then show ?thesis
      by (simp add: updateProfileCheck_def profile_in_store_def findIndex_None[symmetric])
  next
    case (Some i)
    then have ex: "profile_in_store steamId qm"
      using findIndex_None[of "\<lambda>p. steam_id p = steamId" "readQueueProfiles qm"]
      by (simp add: profile_in_store_def)
    have i: "i < length (readQueueProfiles qm)" using findIndex_Some[OF Some] by simp
    show ?thesis
    proof (cases "status \<in> set validStatuses")
      case False
      then show ?thesis using Some by (simp add: updateProfileCheck_def)
    next
      case True
      then show ?thesis using Some ex i
        by (simp add: updateProfileCheck_def Let_def split_beta write_fst write_read with_check_def)
    qed
  qed
  show ?thesis using u w by (intro conjI) (elim conjE, assumption)+
qed

text \<open>On the store with the profile \<^verbatim>\<open>A\<close>: a valid update succeeds, sets that check
  and keeps another; an update of \<^verbatim>\<open>__proto__\<close> succeeds and leaves the profile as it
  was; an unknown status and an unknown id give \<^verbatim>\<open>false\<close> and leave the state as it
  was.\<close>

theorem updateProfileCheck_outcome_witness:
  "fst (updateProfileCheck ''A'' ''friends'' ''passed'' store_A)
   \<and> map_of (checks (with_check ''friends'' ''passed'' (new_profile 0 ''A'' ''alice''))) ''friends'' = Some ''passed''
   \<and> map_of (checks (with_check ''friends'' ''passed'' (new_profile 0 ''A'' ''alice''))) ''steam_level'' = Some ''to_check''
   \<and> with_check ''__proto__'' ''passed'' (new_profile 0 ''A'' ''alice'') = new_profile 0 ''A'' ''alice''
   \<and> fst (updateProfileCheck ''A'' ''__proto__'' ''passed'' store_A)
   \<and> \<not> fst (updateProfileCheck ''A'' ''friends'' ''done'' store_A)
   \<and> snd (updateProfileCheck ''A'' ''friends'' ''done'' store_A) = store_A
   \<and> \<not> fst (updateProfileCheck ''Z'' ''friends'' ''passed'' store_A)
   \<and> snd (updateProfileCheck ''Z'' ''friends'' ''passed'' store_A) = store_A"
proof -
  have a: "profile_in_store ''A'' store_A" "\<not> profile_in_store ''Z'' store_A" "next_write_ok store_A"
    "''passed'' \<in> set validStatuses" "''done'' \<notin> set validStatuses"
    "map_of (checks (new_profile 0 ''A'' ''alice'')) ''friends'' \<noteq> None"
    "map_of (checks (new_profile 0 ''A'' ''alice'')) ''__proto__'' = None"
    "map_of (checks (new_profile 0 ''A'' ''alice'')) ''steam_level'' = Some ''to_check''"
    "''steam_level'' \<noteq> ''friends''"
    by code_simp+
  show ?thesis
    using a
      updateProfileCheck_outcome[of "''A''" "''friends''" "''passed''" store_A
        "new_profile 0 ''A'' ''alice''" "''steam_level''"]
      updateProfileCheck_outcome[of "''A''" "''__proto__''" "''passed''" store_A
        "new_profile 0 ''A'' ''alice''" "''steam_level''"]
      updateProfileCheck_outcome[of "''A''" "''friends''" "''done''" store_A
        "new_profile 0 ''A'' ''alice''" "''steam_level''"]
      updateProfileCheck_outcome[of "''Z''" "''friends''" "''passed''" store_A
        "new_profile 0 ''A'' ''alice''" "''steam_level''"]
    by auto
qed

section \<open>The cooldown manager: cleanup, escalation and reset\<close>

lemma save_fields:
  "cooldowns (saveCooldowns cm) = cooldowns cm"
  "backoffLevels (saveCooldowns cm) = backoffLevels cm"
  "backoffSequence (saveCooldowns cm) = backoffSequence cm"
  "cooldownDurations (saveCooldowns cm) = cooldownDurations cm"
  "fileWritable (saveCooldowns cm) = fileWritable cm"
  "saveCount (saveCooldowns cm) = Suc (saveCount cm)"
  "cooldownFile (saveCooldowns cm) = (if fileWritable cm then Some (cooldowns cm) else cooldownFile cm)"
  by (simp_all add: saveCooldowns_def)

lemma filter_key_single:
  "distinct (map fst xs) \<Longrightarrow> map_of xs e = Some c \<Longrightarrow> filter (\<lambda>x. fst x = e) xs = [(e, c)]"
proof (induction xs)
  case Nil
  then show ?case by simp
next
  case (Cons x xs)
  show ?case
  proof (cases "fst x = e")
    case True
    then have "x = (e, c)" using Cons.prems(2) by (cases x) simp
    moreover have "e \<notin> fst ` set xs" using Cons.prems(1) True by simp
    then have "filter (\<lambda>x. fst x = e) xs = []"
      by (auto simp: filter_empty_conv intro: rev_image_eqI)
    ultimately show ?thesis by simp
  next
    case False
    then show ?thesis using Cons by (cases x) simp
  qed
qed

lemma delete_filter: "AList.delete e xs = filter (\<lambda>x. fst x \<noteq> e) xs"
  by (induction xs) auto

lemma entry_of_key:
  "distinct (map fst xs) \<Longrightarrow> map_of xs e = Some c \<Longrightarrow> (e, c') \<in> set xs \<Longrightarrow> c' = c"
  by (metis map_of_is_SomeI option.inject)

lemma length_filter_split:
  "length (filter Q xs) = length (filter (\<lambda>x. Q x \<and> P x) xs) + length (filter (\<lambda>x. Q x \<and> \<not> P x) xs)"
  by (induction xs) auto

lemma cleanup_loop_filter:
  "distinct ks \<Longrightarrow> distinct (map fst (cooldowns cm)) \<Longrightarrow>
   cleanup_loop now ks (n, cm) =
     (n + length (filter (expired_in now ks) (cooldowns cm)),
      cm\<lparr>cooldowns := filter (\<lambda>x. \<not> expired_in now ks x) (cooldowns cm)\<rparr>)"
proof (induction ks arbitrary: n cm)
  case Nil
  then show ?case by (simp add: expired_in_def)
next
  case (Cons e ks)
  have dks: "distinct ks" and e: "e \<notin> set ks" using Cons.prems(1) by auto
  show ?case
  proof (cases "map_of (cooldowns cm) e")
    case None
    then have "\<forall>x \<in> set (cooldowns cm). fst x \<noteq> e"
      by (metis map_of_eq_None_iff image_eqI)
    then have "\<forall>x \<in> set (cooldowns cm). expired_in now (e # ks) x = expired_in now ks x"
      by (simp add: expired_in_def)
    then have eq: "filter (expired_in now (e # ks)) (cooldowns cm) = filter (expired_in now ks) (cooldowns cm)"
      "filter (\<lambda>x. \<not> expired_in now (e # ks) x) (cooldowns cm) = filter (\<lambda>x. \<not> expired_in now ks x) (cooldowns cm)"
      by (auto intro: filter_cong)
    show ?thesis using None Cons.IH[OF dks Cons.prems(2), of n] by (simp add: eq)
  next
    case (Some c)
    show ?thesis
    proof (cases "deadline_passed c now")
      case False
      have "\<forall>x \<in> set (cooldowns cm). expired_in now (e # ks) x = expired_in now ks x"
      proof
        fix x assume x: "x \<in> set (cooldowns cm)"
        show "expired_in now (e # ks) x = expired_in now ks x"
        proof (cases "fst x = e")
          case True
          then have "(e, snd x) \<in> set (cooldowns cm)" using x by (metis prod.collapse)
          then have "snd x = c" using entry_of_key[OF Cons.prems(2) Some] by simp
          then show ?thesis using False True e by (simp add: expired_in_def)
        next
          case False
          then show ?thesis by (simp add: expired_in_def)
        qed
      qed
      then have eq: "filter (expired_in now (e # ks)) (cooldowns cm) = filter (expired_in now ks) (cooldowns cm)"
        "filter (\<lambda>x. \<not> expired_in now (e # ks) x) (cooldowns cm) = filter (\<lambda>x. \<not> expired_in now ks x) (cooldowns cm)"
        by (auto intro: filter_cong)
      show ?thesis using Some False Cons.IH[OF dks Cons.prems(2), of n] by (simp add: eq)
    next
      case True
      let ?cds = "cooldowns cm"
      let ?cm = "cm\<lparr>cooldowns := AList.delete e ?cds\<rparr>"
      have del: "AList.delete e ?cds = filter (\<lambda>x. fst x \<noteq> e) ?cds"
        by (rule delete_filter)
      have d': "distinct (map fst (cooldowns ?cm))" using Cons.prems(2) by (simp add: distinct_delete)
      have step: "cleanup_loop now (e # ks) (n, cm) = cleanup_loop now ks (Suc n, ?cm)"
        using Some True by simp
      have single: "filter (\<lambda>x. fst x = e) ?cds = [(e, c)]"
        by (rule filter_key_single[OF Cons.prems(2) Some])
      have A: "filter (\<lambda>x. expired_in now (e # ks) x \<and> fst x = e) ?cds = [(e, c)]"
      proof -
        have "filter (\<lambda>x. expired_in now (e # ks) x \<and> fst x = e) ?cds
              = filter (expired_in now (e # ks)) (filter (\<lambda>x. fst x = e) ?cds)"
          by (simp add: conj_commute)
        then show ?thesis using True by (simp add: single expired_in_def)
      qed
      have B: "filter (\<lambda>x. expired_in now (e # ks) x \<and> fst x \<noteq> e) ?cds
               = filter (expired_in now ks) (filter (\<lambda>x. fst x \<noteq> e) ?cds)"
        by (auto simp: expired_in_def intro: filter_cong)
      have cnt: "length (filter (expired_in now (e # ks)) ?cds)
                 = Suc (length (filter (expired_in now ks) (AList.delete e ?cds)))"
        using length_filter_split[of "expired_in now (e # ks)" ?cds "\<lambda>x. fst x = e"]
        by (simp add: A B del)
      have C: "filter (\<lambda>x. \<not> expired_in now ks x) (AList.delete e ?cds)
               = filter (\<lambda>x. \<not> expired_in now (e # ks) x) ?cds"
      proof -
        have "\<forall>x \<in> set ?cds. (fst x \<noteq> e \<and> \<not> expired_in now ks x) = (\<not> expired_in now (e # ks) x)"
        proof
          fix x assume x: "x \<in> set ?cds"
          show "(fst x \<noteq> e \<and> \<not> expired_in now ks x) = (\<not> expired_in now (e # ks) x)"
          proof (cases "fst x = e")
            case True
            then have "(e, snd x) \<in> set ?cds" using x by (metis prod.collapse)
            then have "snd x = c" using entry_of_key[OF Cons.prems(2) Some] by simp
            then show ?thesis using True \<open>deadline_passed c now\<close> by (simp add: expired_in_def)
          next
            case False
            then show ?thesis by (simp add: expired_in_def)
          qed
        qed
        then have "filter (\<lambda>x. fst x \<noteq> e \<and> \<not> expired_in now ks x) ?cds
                   = filter (\<lambda>x. \<not> expired_in now (e # ks) x) ?cds"
          by (auto intro: filter_cong)
        then show ?thesis by (simp add: del conj_commute)
      qed
      show ?thesis
        unfolding step using Cons.IH[OF dks d', of "Suc n"] by (simp add: cnt C)
    qed
  qed
qed

lemma expired_in_all:
  "x \<in> set cds \<Longrightarrow> expired_in now (map fst cds) x = deadline_passed (snd x) now"
  by (simp add: expired_in_def)

lemma cleanup_loop_all:
  assumes "distinct (map fst (cooldowns cm))"
  shows "cleanup_loop now (map fst (cooldowns cm)) (0, cm) =
     (length (filter (\<lambda>x. deadline_passed (snd x) now) (cooldowns cm)),
      cm\<lparr>cooldowns := filter (\<lambda>x. \<not> deadline_passed (snd x) now) (cooldowns cm)\<rparr>)"
proof -
  have 1: "filter (expired_in now (map fst (cooldowns cm))) (cooldowns cm)
           = filter (\<lambda>x. deadline_passed (snd x) now) (cooldowns cm)"
    by (rule filter_cong) (simp_all add: expired_in_all)
  have 2: "filter (\<lambda>x. \<not> expired_in now (map fst (cooldowns cm)) x) (cooldowns cm)
           = filter (\<lambda>x. \<not> deadline_passed (snd x) now) (cooldowns cm)"
    by (rule filter_cong) (simp_all add: expired_in_all)
  show ?thesis
    using cleanup_loop_filter[OF assms assms, of now 0] by (simp add: 1 2)
qed

lemma cleanup_result:
  assumes "distinct (map fst (cooldowns cm))"
  shows "fst (cleanupExpiredCooldowns now cm) = length (filter (\<lambda>x. deadline_passed (snd x) now) (cooldowns cm))"
    and "cooldowns (snd (cleanupExpiredCooldowns now cm)) = filter (\<lambda>x. \<not> deadline_passed (snd x) now) (cooldowns cm)"
    and "backoffLevels (snd (cleanupExpiredCooldowns now cm)) = backoffLevels cm"
    and "backoffSequence (snd (cleanupExpiredCooldowns now cm)) = backoffSequence cm"
    and "fileWritable (snd (cleanupExpiredCooldowns now cm)) = fileWritable cm"
    and "saveCount (snd (cleanupExpiredCooldowns now cm)) =
           (if 0 < fst (cleanupExpiredCooldowns now cm) then Suc (saveCount cm) else saveCount cm)"
    and "cooldownFile (snd (cleanupExpiredCooldowns now cm)) =
           (if 0 < fst (cleanupExpiredCooldowns now cm) \<and> fileWritable cm
            then Some (cooldowns (snd (cleanupExpiredCooldowns now cm))) else cooldownFile cm)"
  by (simp_all add: cleanupExpiredCooldowns_def cleanup_loop_all[OF assms] save_fields)

lemma mark_429_level:
  "backoffLevels (markEndpointCooldown now e ''429'' msg cm) e =
     Some (min (level_or_0 cm e + 1) (int (length (backoffSequence cm)) - 1))"
  by (simp add: markEndpointCooldown_def Let_def save_fields)

lemma mark_429_record:
  "map_of (cooldowns (markEndpointCooldown now e ''429'' msg cm)) e =
     Some \<lparr>cooldown_until = map_option (\<lambda>m. now + m * 60 * 1000)
              (seq_at (backoffSequence cm) (min (level_or_0 cm e + 1) (int (length (backoffSequence cm)) - 1))),
           reason = ''429'',
           backoff_level = Some (min (level_or_0 cm e + 1) (int (length (backoffSequence cm)) - 1)),
           applied_at = now, error_message = msg,
           duration_minutes = seq_at (backoffSequence cm) (min (level_or_0 cm e + 1) (int (length (backoffSequence cm)) - 1)),
           duration_used = None\<rparr>"
  by (simp add: markEndpointCooldown_def Let_def save_fields update_conv' option.map_comp comp_def)

lemma mark_file:
  "cooldownFile (markEndpointCooldown now e t msg cm) =
     (if fileWritable cm then Some (cooldowns (markEndpointCooldown now e t msg cm)) else cooldownFile cm)"
  by (simp add: markEndpointCooldown_def Let_def save_fields saveCooldowns_def)

lemma mark_fields:
  "backoffSequence (markEndpointCooldown now e t msg cm) = backoffSequence cm"
  "fileWritable (markEndpointCooldown now e t msg cm) = fileWritable cm"
  by (simp_all add: markEndpointCooldown_def Let_def save_fields)

lemma mark_other_level:
  "\<not> (e' = e \<and> t = ''429'') \<Longrightarrow> backoffLevels (markEndpointCooldown now e' t msg cm) e = backoffLevels cm e"
  by (auto simp: markEndpointCooldown_def Let_def save_fields)

lemma mark_distinct:
  "distinct (map fst (cooldowns cm)) \<Longrightarrow> distinct (map fst (cooldowns (markEndpointCooldown now e t msg cm)))"
  by (simp add: markEndpointCooldown_def Let_def save_fields distinct_update)

lemma reset_fields:
  "backoffSequence (resetBackoffOnSuccess e cm) = backoffSequence cm"
  "fileWritable (resetBackoffOnSuccess e cm) = fileWritable cm"
  by (simp_all add: resetBackoffOnSuccess_def Let_def save_fields split: option.splits)

lemma reset_levels:
  "backoffLevels (resetBackoffOnSuccess e cm) = (backoffLevels cm)(e := None)"
  by (auto simp: resetBackoffOnSuccess_def Let_def save_fields split: option.splits)

lemma reset_cooldowns:
  "cooldowns (resetBackoffOnSuccess e cm) =
     (case map_of (cooldowns cm) e of
        None \<Rightarrow> cooldowns cm
      | Some c \<Rightarrow> if reason c = ''429'' then AList.delete e (cooldowns cm) else cooldowns cm)"
  by (simp add: resetBackoffOnSuccess_def Let_def save_fields split: option.splits)

lemma reset_distinct:
  "distinct (map fst (cooldowns cm)) \<Longrightarrow> distinct (map fst (cooldowns (resetBackoffOnSuccess e cm)))"
  by (simp add: reset_cooldowns distinct_delete split: option.splits)

lemma cleanup_distinct:
  "distinct (map fst (cooldowns cm)) \<Longrightarrow> distinct (map fst (cooldowns (snd (cleanupExpiredCooldowns now cm))))"
  by (simp add: cleanup_result distinct_map_filter)

lemma step_distinct:
  "distinct (map fst (cooldowns cm)) \<Longrightarrow> distinct (map fst (cooldowns (cooldown_step c cm)))"
  by (cases c) (simp_all add: mark_distinct reset_distinct cleanup_distinct
      isEndpointInCooldown_def getConnectionStatus_def Let_def)

lemma step_sequence:
  "distinct (map fst (cooldowns cm)) \<Longrightarrow> backoffSequence (cooldown_step c cm) = backoffSequence cm"
  by (cases c) (simp_all add: mark_fields reset_fields cleanup_result
      isEndpointInCooldown_def getConnectionStatus_def Let_def)

lemma step_writable:
  "distinct (map fst (cooldowns cm)) \<Longrightarrow> fileWritable (cooldown_step c cm) = fileWritable cm"
  by (cases c) (simp_all add: mark_fields reset_fields cleanup_result
      isEndpointInCooldown_def getConnectionStatus_def Let_def)

lemma step_level:
  assumes "distinct (map fst (cooldowns cm))" "c \<noteq> ResetBackoffOnSuccess e"
  shows "level_or_0 (cooldown_step c cm) e =
     (if is_mark_429 e c then min (level_or_0 cm e + 1) (int (length (backoffSequence cm)) - 1)
      else level_or_0 cm e)"
proof (cases c)
  case (MarkEndpointCooldown now e' t msg)
  show ?thesis
  proof (cases "e' = e \<and> t = ''429''")
    case True
    then show ?thesis using MarkEndpointCooldown by (simp add: level_or_0_def[of "markEndpointCooldown _ _ _ _ _"] mark_429_level)
  next
    case False
    then show ?thesis using MarkEndpointCooldown mark_other_level[OF False]
      by (auto simp add: level_or_0_def)
  qed
next
  case (ResetBackoffOnSuccess e')
  then have "e' \<noteq> e" using assms(2) by simp
  then show ?thesis using ResetBackoffOnSuccess by (simp add: level_or_0_def reset_levels)
next
  case (CleanupExpiredCooldowns now)
  then show ?thesis using assms(1) by (simp add: level_or_0_def cleanup_result)
next
  case (IsEndpointInCooldown now e')
  then show ?thesis using assms(1) by (simp add: level_or_0_def cleanup_result isEndpointInCooldown_def Let_def)
next
  case (GetConnectionStatus now)
  then show ?thesis using assms(1) by (simp add: level_or_0_def cleanup_result getConnectionStatus_def Let_def)
qed

lemma min_escalate: "min (min (a + 1) L + int k) L = min (a + (1 + int k)) (L::int)"
  by (simp add: min_def)

lemma run_level:
  assumes "distinct (map fst (cooldowns cm))" "ResetBackoffOnSuccess e \<notin> set calls"
  shows "distinct (map fst (cooldowns (fold cooldown_step calls cm))) \<and>
         backoffSequence (fold cooldown_step calls cm) = backoffSequence cm \<and>
         fileWritable (fold cooldown_step calls cm) = fileWritable cm \<and>
         level_or_0 (fold cooldown_step calls cm) e =
           (if count_429 e calls = 0 then level_or_0 cm e
            else min (level_or_0 cm e + int (count_429 e calls)) (int (length (backoffSequence cm)) - 1))"
  using assms
proof (induction calls arbitrary: cm)
  case Nil
  then show ?case by (simp add: count_429_def)
next
  case (Cons c calls)
  have d: "distinct (map fst (cooldowns (cooldown_step c cm)))" using Cons.prems(1) by (rule step_distinct)
  have nr: "ResetBackoffOnSuccess e \<notin> set calls" "c \<noteq> ResetBackoffOnSuccess e" using Cons.prems(2) by auto
  note IH = Cons.IH[OF d nr(1)]
  note sl = step_level[OF Cons.prems(1) nr(2)]
  note ss = step_sequence[OF Cons.prems(1), of c]
  note sw = step_writable[OF Cons.prems(1), of c]
  have cnt: "count_429 e (c # calls) = (if is_mark_429 e c then Suc (count_429 e calls) else count_429 e calls)"
    by (simp add: count_429_def)
  show ?case
    using IH by (simp add: sl ss sw cnt min_escalate)
qed

text \<open>
  C1, as amended. Let a manager with a non-empty backoff sequence hold level \<open>l\<^sub>0 \<ge> 0\<close>
  for endpoint \<open>e\<close> (0 when the table has no entry for \<open>e\<close>). After any run of calls
  with no \<^verbatim>\<open>resetBackoffOnSuccess(e)\<close> that ends in the \<open>k\<close>-th 429 mark of \<open>e\<close>, the level
  stored for \<open>e\<close>, in the table and in the cooldown record, is
  \<open>min (l\<^sub>0 + k) (length sequence - 1)\<close>, the deadline of the record is the time of that
  call plus \<open>sequence[level]\<close> minutes, and the record is on disk when the file can be
  written. From an empty table the \<open>k\<close>-th 429 therefore gives level
  \<open>min k (length sequence - 1)\<close>: the first one uses level 1, not level 0, as soon as the
  sequence has two entries.
\<close>

theorem mark429_escalates:
  assumes "distinct (map fst (cooldowns cm))"
    and "backoffSequence cm \<noteq> []"
    and "0 \<le> level_or_0 cm e"
    and "ResetBackoffOnSuccess e \<notin> set calls"
  shows "backoffLevels (cooldown_run (calls @ [MarkEndpointCooldown now e ''429'' msg]) cm) e =
           Some (min (level_or_0 cm e + int (Suc (count_429 e calls))) (int (length (backoffSequence cm)) - 1))
       \<and> map_option backoff_level (map_of (cooldowns (cooldown_run (calls @ [MarkEndpointCooldown now e ''429'' msg]) cm)) e) =
           Some (Some (min (level_or_0 cm e + int (Suc (count_429 e calls))) (int (length (backoffSequence cm)) - 1)))
       \<and> map_option cooldown_until (map_of (cooldowns (cooldown_run (calls @ [MarkEndpointCooldown now e ''429'' msg]) cm)) e) =
           Some (Some (now + backoffSequence cm !
              nat (min (level_or_0 cm e + int (Suc (count_429 e calls))) (int (length (backoffSequence cm)) - 1)) * 60 * 1000))
       \<and> (fileWritable cm \<longrightarrow>
            cooldownFile (cooldown_run (calls @ [MarkEndpointCooldown now e ''429'' msg]) cm) =
            Some (cooldowns (cooldown_run (calls @ [MarkEndpointCooldown now e ''429'' msg]) cm)))"
proof -
  let ?cm = "fold cooldown_step calls cm"
  let ?L = "min (level_or_0 cm e + int (Suc (count_429 e calls))) (int (length (backoffSequence cm)) - 1)"
  note rl = run_level[OF assms(1) assms(4)]
  have seq: "backoffSequence ?cm = backoffSequence cm" and wr: "fileWritable ?cm = fileWritable cm"
    using rl by simp_all
  have lvl: "min (level_or_0 ?cm e + 1) (int (length (backoffSequence cm)) - 1) = ?L"
    using rl by (auto simp: min_def)
  have nonneg: "0 \<le> ?L" "?L < int (length (backoffSequence cm))"
    using assms(2,3) by (simp_all add: min_def)
  have sa: "seq_at (backoffSequence cm) ?L = Some (backoffSequence cm ! nat ?L)"
    using nonneg unfolding seq_at_def by simp
  have run: "cooldown_run (calls @ [MarkEndpointCooldown now e ''429'' msg]) cm
             = markEndpointCooldown now e ''429'' msg ?cm"
    by (simp add: cooldown_run_def)
  show ?thesis
    unfolding run
    by (simp add: mark_429_level mark_429_record mark_file seq wr lvl sa del: of_nat_Suc)
qed

lemma fresh_manager_fields:
  "cooldowns fresh_manager = []"
  "backoffSequence fresh_manager = [1, 2, 4]"
  "backoffLevels fresh_manager = (\<lambda>e. None)"
  "fileWritable fresh_manager = True"
  by (simp_all add: fresh_manager_def CooldownManager_def initializeBackoffLevelsFromFile_def saveCooldowns_def)

lemma marked_once_fields:
  "cooldowns marked_once = [(''friends'', \<lparr>cooldown_until = Some 120000, reason = ''429'', backoff_level = Some 1,
      applied_at = 0, error_message = ''rate limited'', duration_minutes = Some 2, duration_used = None\<rparr>)]"
  "backoffSequence marked_once = [1, 2, 4]"
  "backoffLevels marked_once ''friends'' = Some 1"
  by (simp_all add: marked_once_def markEndpointCooldown_def Let_def save_fields fresh_manager_fields
      level_or_0_def seq_at_def)

text \<open>The first 429 on a fresh manager with the sequence \<open>[1, 2, 4]\<close>: the level stored
  is 1 and the cooldown lasts 2 minutes, where \<open>min (k - 1) (length sequence - 1)\<close> is 0
  for \<open>k = 1\<close>.\<close>

theorem first_429_counterexample:
  "backoffLevels (cooldown_run [MarkEndpointCooldown 0 ''friends'' ''429'' ''rate limited''] fresh_manager) ''friends'' = Some 1
   \<and> min (1 - 1) (int (length (backoffSequence fresh_manager)) - 1) = 0
   \<and> map_option cooldown_until (map_of (cooldowns (cooldown_run [MarkEndpointCooldown 0 ''friends'' ''429'' ''rate limited''] fresh_manager)) ''friends'')
       = Some (Some (0 + 2 * 60 * 1000))"
  using marked_once_fields
  by (simp add: cooldown_run_def marked_once_def[symmetric] fresh_manager_fields)

text \<open>The run of the specification's third scenario: a 429, the cleanup after its expiry
  and a second 429 leave \<^verbatim>\<open>friends\<close> at level 2.\<close>

theorem mark429_escalates_witness:
  "distinct (map fst (cooldowns fresh_manager)) \<and> backoffSequence fresh_manager \<noteq> [] \<and>
   0 \<le> level_or_0 fresh_manager ''friends'' \<and>
   ResetBackoffOnSuccess ''friends'' \<notin> set [MarkEndpointCooldown 0 ''friends'' ''429'' ''rate limited'', CleanupExpiredCooldowns 120001] \<and>
   backoffLevels (cooldown_run ([MarkEndpointCooldown 0 ''friends'' ''429'' ''rate limited'', CleanupExpiredCooldowns 120001]
       @ [MarkEndpointCooldown 120002 ''friends'' ''429'' ''rate limited'']) fresh_manager) ''friends'' = Some 2"
proof -
  have h1: "distinct (map fst (cooldowns fresh_manager))" by (simp add: fresh_manager_fields)
  have h2: "backoffSequence fresh_manager \<noteq> []" by (simp add: fresh_manager_fields)
  have h3: "0 \<le> level_or_0 fresh_manager ''friends''" by (simp add: level_or_0_def fresh_manager_fields)
  have h4: "ResetBackoffOnSuccess ''friends'' \<notin> set [MarkEndpointCooldown 0 ''friends'' ''429'' ''rate limited'', CleanupExpiredCooldowns 120001]"
    by simp
  show ?thesis
    using h1 h2 h3 h4 mark429_escalates[OF h1 h2 h3 h4, of 120002 "''rate limited''"]
    by (simp add: count_429_def level_or_0_def fresh_manager_fields)
qed

text \<open>
  C2. \<^verbatim>\<open>cleanupExpiredCooldowns\<close> removes exactly the entries whose deadline has passed
  and returns their number; it saves once if that number is positive and not at all
  otherwise; the table of backoff levels is the same afterwards. So a 429 on \<open>e\<close> that
  follows the cleanup gets the level kept for \<open>e\<close> plus one, capped at the last index.
  The keys of the cooldown object are distinct, as the keys of a JavaScript object are.
\<close>

theorem cleanup_keeps_backoff_levels:
  assumes "distinct (map fst (cooldowns cm))"
  shows "cooldowns (snd (cleanupExpiredCooldowns now cm)) =
           filter (\<lambda>x. \<not> deadline_passed (snd x) now) (cooldowns cm)
       \<and> fst (cleanupExpiredCooldowns now cm) =
           length (filter (\<lambda>x. deadline_passed (snd x) now) (cooldowns cm))
       \<and> saveCount (snd (cleanupExpiredCooldowns now cm)) =
           (if 0 < fst (cleanupExpiredCooldowns now cm) then Suc (saveCount cm) else saveCount cm)
       \<and> cooldownFile (snd (cleanupExpiredCooldowns now cm)) =
           (if 0 < fst (cleanupExpiredCooldowns now cm) \<and> fileWritable cm
            then Some (cooldowns (snd (cleanupExpiredCooldowns now cm))) else cooldownFile cm)
       \<and> backoffLevels (snd (cleanupExpiredCooldowns now cm)) = backoffLevels cm
       \<and> backoffLevels (markEndpointCooldown now' e ''429'' msg (snd (cleanupExpiredCooldowns now cm))) e =
           Some (min (level_or_0 cm e + 1) (int (length (backoffSequence cm)) - 1))"
  using cleanup_result[OF assms, of now]
  by (simp add: mark_429_level level_or_0_def)

text \<open>After the 2 minutes of the first 429 the cleanup removes the record of
  \<^verbatim>\<open>friends\<close> and keeps its level 1; the next 429 gives level 2.\<close>

theorem cleanup_keeps_backoff_levels_witness:
  "distinct (map fst (cooldowns marked_once)) \<and>
   fst (cleanupExpiredCooldowns 120001 marked_once) = 1 \<and>
   cooldowns (snd (cleanupExpiredCooldowns 120001 marked_once)) = [] \<and>
   backoffLevels (snd (cleanupExpiredCooldowns 120001 marked_once)) ''friends'' = Some 1 \<and>
   backoffLevels (markEndpointCooldown 120002 ''friends'' ''429'' ''rate limited''
      (snd (cleanupExpiredCooldowns 120001 marked_once))) ''friends'' = Some 2"
proof -
  have h: "distinct (map fst (cooldowns marked_once))" by (simp add: marked_once_fields)
  show ?thesis
    using h cleanup_keeps_backoff_levels[OF h, of 120001 120002 "''friends''" "''rate limited''"]
    by (simp add: marked_once_fields deadline_passed_def level_or_0_def)
qed

text \<open>
  C8. \<^verbatim>\<open>resetBackoffOnSuccess(e)\<close> leaves no level for \<open>e\<close> in the table. The levels
  and the cooldown records of every other endpoint are unchanged. A cooldown record of
  \<open>e\<close> with reason 429 is deleted and the object is saved; a record of \<open>e\<close> with any
  other reason stays as it is, and then, as when \<open>e\<close> has no record, nothing but the table
  changes.
\<close>

theorem reset_clears_only_429:
  "backoffLevels (resetBackoffOnSuccess e cm) e = None
   \<and> (e' \<noteq> e \<longrightarrow> backoffLevels (resetBackoffOnSuccess e cm) e' = backoffLevels cm e'
                 \<and> map_of (cooldowns (resetBackoffOnSuccess e cm)) e' = map_of (cooldowns cm) e')
   \<and> (case map_of (cooldowns cm) e of
        None \<Rightarrow> resetBackoffOnSuccess e cm = cm\<lparr>backoffLevels := (backoffLevels cm)(e := None)\<rparr>
      | Some c \<Rightarrow>
          if reason c = ''429''
          then map_of (cooldowns (resetBackoffOnSuccess e cm)) e = None
             \<and> cooldowns (resetBackoffOnSuccess e cm) = AList.delete e (cooldowns cm)
             \<and> saveCount (resetBackoffOnSuccess e cm) = Suc (saveCount cm)
             \<and> (fileWritable cm \<longrightarrow> cooldownFile (resetBackoffOnSuccess e cm) = Some (AList.delete e (cooldowns cm)))
          else resetBackoffOnSuccess e cm = cm\<lparr>backoffLevels := (backoffLevels cm)(e := None)\<rparr>
             \<and> map_of (cooldowns (resetBackoffOnSuccess e cm)) e = Some c)"
proof -
  have triv: "backoffLevels cm e = None \<Longrightarrow> cm\<lparr>backoffLevels := (backoffLevels cm)(e := None)\<rparr> = cm"
    by (simp add: fun_upd_idem)
  show ?thesis
    by (auto simp: resetBackoffOnSuccess_def Let_def save_fields delete_conv' triv
        saveCooldowns_def split: option.splits)
qed

text \<open>With a 429 cooldown on \<^verbatim>\<open>friends\<close> and a timeout cooldown on \<^verbatim>\<open>inventory\<close>: a
  success on \<^verbatim>\<open>friends\<close> clears its level and its record and keeps the record of
  \<^verbatim>\<open>inventory\<close>; a success on \<^verbatim>\<open>inventory\<close> keeps the timeout record.\<close>

theorem reset_clears_only_429_witness:
  "''inventory'' \<noteq> ''friends''
   \<and> backoffLevels marked_twice ''friends'' = Some 1
   \<and> backoffLevels (resetBackoffOnSuccess ''friends'' marked_twice) ''friends'' = None
   \<and> map_of (cooldowns (resetBackoffOnSuccess ''friends'' marked_twice)) ''friends'' = None
   \<and> map_option reason (map_of (cooldowns (resetBackoffOnSuccess ''friends'' marked_twice)) ''inventory'') = Some ''timeout''
   \<and> map_option reason (map_of (cooldowns (resetBackoffOnSuccess ''inventory'' marked_twice)) ''inventory'') = Some ''timeout''"
  using reset_clears_only_429[of "''friends''" marked_twice "''inventory''"]
        reset_clears_only_429[of "''inventory''" marked_twice "''friends''"]
  by (simp add: marked_twice_def markEndpointCooldown_def Let_def save_fields marked_once_fields)

section \<open>The queue client: success and safe defaults\<close>

lemma makeRequest_wire: "snd (makeRequest net req w) = w @ [req]"
  by (simp add: makeRequest_def)

lemma makeRequest_result: "isl (fst (makeRequest net req w)) = (\<not> is_success (net req))"
  by (simp add: makeRequest_def is_success_def split: http_outcome.splits option.splits)

lemma makeRequest_failure: "\<not> is_success (net req) \<Longrightarrow> \<exists>e. fst (makeRequest net req w) = Inl e"
  using makeRequest_result[of net req w] by (cases "fst (makeRequest net req w)") simp_all

lemma failure_default:
  assumes "\<not> is_success (net req)"
  shows "try_catch (and_then (fst (makeRequest net req w)) f) (\<lambda>e. Inr v) = Inr v"
proof -
  obtain e where "fst (makeRequest net req w) = Inl e"
    using assms makeRequest_failure[of net req w] by blast
  then show ?thesis by (simp add: try_catch_def and_then_def)
qed

lemma client_wires:
  "snd (claimItems net i n w) = w @ [ClaimReq i n]"
  "snd (completeItems net i ids w) = w @ [CompleteReq i ids]"
  "snd (releaseItems net i ids w) = w @ [ReleaseReq i ids]"
  "snd (getStats net w) = w @ [StatsReq]"
  "snd (releaseInstance net i w) = w @ [ReleaseInstanceReq i]"
  by (simp_all add: claimItems_def completeItems_def releaseItems_def getStats_def releaseInstance_def
      split_beta makeRequest_wire)

lemma makeRequest_body:
  "success_body (net req) = Some parsed \<Longrightarrow> fst (makeRequest net req w) = Inr parsed"
  by (auto simp: makeRequest_def success_body_def split: http_outcome.splits option.splits if_splits)

lemma is_success_body: "is_success out = (success_body out \<noteq> None)"
  by (simp add: is_success_def success_body_def split: http_outcome.splits option.splits)

lemma method_result:
  "try_catch (and_then (fst (makeRequest net req w)) f) (\<lambda>e. Inr d) =
     (case success_body (net req) of
        None \<Rightarrow> Inr d
      | Some parsed \<Rightarrow> (case f parsed of Inl e \<Rightarrow> Inr d | Inr y \<Rightarrow> Inr y))"
proof (cases "success_body (net req)")
  case None
  then have "\<not> is_success (net req)" by (simp add: is_success_body)
  then show ?thesis using None by (simp add: failure_default)
next
  case (Some parsed)
  then show ?thesis
    by (simp add: makeRequest_body try_catch_def and_then_def split: sum.splits)
qed

text \<open>
  C9. \<open>makeRequest\<close> sends its request and resolves exactly when the status is 200 and
  the parsed body has a truthy \<^verbatim>\<open>success\<close>, with that body; every method sends one
  request through it and never throws. On a success \<^verbatim>\<open>claimItems\<close> returns the items
  of the body, \<^verbatim>\<open>completeItems\<close> and \<^verbatim>\<open>releaseItems\<close> return \<^verbatim>\<open>true\<close>,
  \<^verbatim>\<open>getStats\<close> returns the statistics of the body and \<^verbatim>\<open>releaseInstance\<close> its
  released count (0 when it has none). On any other outcome \<^verbatim>\<open>claimItems\<close> returns
  the empty list, \<^verbatim>\<open>completeItems\<close> and \<^verbatim>\<open>releaseItems\<close> return \<^verbatim>\<open>false\<close>,
  \<^verbatim>\<open>getStats\<close> returns \<^verbatim>\<open>null\<close> and \<^verbatim>\<open>releaseInstance\<close> returns 0.
\<close>

theorem queue_client_safe_defaults:
  "isl (fst (makeRequest net req w)) = (\<not> is_success (net req))
   \<and> is_success (net req) = (success_body (net req) \<noteq> None)
   \<and> (success_body (net req) = Some parsed \<longrightarrow> fst (makeRequest net req w) = Inr parsed)
   \<and> snd (makeRequest net req w) = w @ [req]
   \<and> fst (claimItems net i n w) =
        Inr (case success_body (net (ClaimReq i n)) of
               None \<Rightarrow> []
             | Some body \<Rightarrow> (case resp_items body of None \<Rightarrow> [] | Some xs \<Rightarrow> xs))
   \<and> fst (completeItems net i ids w) = Inr (is_success (net (CompleteReq i ids)))
   \<and> fst (releaseItems net i ids w) = Inr (is_success (net (ReleaseReq i ids)))
   \<and> fst (getStats net w) =
        Inr (case success_body (net StatsReq) of None \<Rightarrow> None | Some body \<Rightarrow> resp_stats body)
   \<and> fst (releaseInstance net i w) =
        Inr (case success_body (net (ReleaseInstanceReq i)) of
               None \<Rightarrow> 0
             | Some body \<Rightarrow> (case resp_released_count body of None \<Rightarrow> 0 | Some c \<Rightarrow> c))
   \<and> (\<not> is_success (net (ClaimReq i n)) \<longrightarrow> fst (claimItems net i n w) = Inr [])
   \<and> (\<not> is_success (net StatsReq) \<longrightarrow> fst (getStats net w) = Inr None)
   \<and> (\<not> is_success (net (ReleaseInstanceReq i)) \<longrightarrow> fst (releaseInstance net i w) = Inr 0)
   \<and> \<not> isl (fst (claimItems net i n w))
   \<and> \<not> isl (fst (getStats net w))
   \<and> \<not> isl (fst (releaseInstance net i w))
   \<and> snd (claimItems net i n w) = w @ [ClaimReq i n]
   \<and> snd (completeItems net i ids w) = w @ [CompleteReq i ids]
   \<and> snd (releaseItems net i ids w) = w @ [ReleaseReq i ids]
   \<and> snd (getStats net w) = w @ [StatsReq]
   \<and> snd (releaseInstance net i w) = w @ [ReleaseInstanceReq i]"
proof -
  have m: "success_body (net req) = Some parsed \<longrightarrow> fst (makeRequest net req w) = Inr parsed"
    by (simp add: makeRequest_body)
  have d1: "fst (claimItems net i n w) =
        Inr (case success_body (net (ClaimReq i n)) of
               None \<Rightarrow> []
             | Some body \<Rightarrow> (case resp_items body of None \<Rightarrow> [] | Some xs \<Rightarrow> xs))"
    by (simp add: claimItems_def split_beta method_result split: option.splits)
  have d2: "fst (getStats net w) =
        Inr (case success_body (net StatsReq) of None \<Rightarrow> None | Some body \<Rightarrow> resp_stats body)"
    by (simp add: getStats_def split_beta method_result split: option.splits)
  have d3: "fst (releaseInstance net i w) =
        Inr (case success_body (net (ReleaseInstanceReq i)) of
               None \<Rightarrow> 0
             | Some body \<Rightarrow> (case resp_released_count body of None \<Rightarrow> 0 | Some c \<Rightarrow> c))"
    by (simp add: releaseInstance_def split_beta method_result split: option.splits)
  have c1: "\<not> is_success (net (ClaimReq i n)) \<longrightarrow> fst (claimItems net i n w) = Inr []"
    by (simp add: d1 is_success_body)
  have c2: "fst (completeItems net i ids w) = Inr (is_success (net (CompleteReq i ids)))"
    by (simp add: completeItems_def split_beta method_result is_success_body split: option.splits)
  have c3: "fst (releaseItems net i ids w) = Inr (is_success (net (ReleaseReq i ids)))"
    by (simp add: releaseItems_def split_beta method_result is_success_body split: option.splits)
  have c4: "\<not> is_success (net StatsReq) \<longrightarrow> fst (getStats net w) = Inr None"
    by (simp add: d2 is_success_body)
  have c5: "\<not> is_success (net (ReleaseInstanceReq i)) \<longrightarrow> fst (releaseInstance net i w) = Inr 0"
    by (simp add: d3 is_success_body)
  have c6: "\<not> isl (fst (claimItems net i n w))" by (simp add: d1)
  have c7: "\<not> isl (fst (getStats net w))" by (simp add: d2)
  have c8: "\<not> isl (fst (releaseInstance net i w))" by (simp add: d3)
  show ?thesis
    by (intro conjI makeRequest_result is_success_body m makeRequest_wire d1 d2 d3 c1 c2 c3 c4 c5 c6 c7 c8
        client_wires)
qed

text \<open>The defaults on a timeout and on a 500 answer whose body says \<^verbatim>\<open>success\<close>, and
  the results on a 200 answer with statistics and a released count of 3.\<close>

theorem queue_client_safe_defaults_witness:
  "\<not> is_success (net_down (ClaimReq ''w1'' 5)) \<and> fst (claimItems net_down ''w1'' 5 []) = Inr []
   \<and> \<not> is_success (net_500 (ReleaseInstanceReq ''w1'')) \<and> fst (releaseInstance net_500 ''w1'' []) = Inr 0
   \<and> \<not> is_success (net_500 StatsReq) \<and> fst (getStats net_500 []) = Inr None
   \<and> fst (completeItems net_500 ''w1'' [''A''] []) = Inr False
   \<and> is_success (net_stats StatsReq) \<and> fst (getStats net_stats []) = Inr (Some ''{pending: 7}'')
   \<and> fst (releaseInstance net_stats ''w1'' []) = Inr 3
   \<and> fst (claimItems net_stats ''w1'' 5 []) = Inr []
   \<and> fst (completeItems net_stats ''w1'' [''A''] []) = Inr True"
  using queue_client_safe_defaults[of net_down "ClaimReq ''w1'' 5" "[]" _ "''w1''" 5 "[''A'']"]
        queue_client_safe_defaults[of net_500 "ClaimReq ''w1'' 5" "[]" _ "''w1''" 5 "[''A'']"]
        queue_client_safe_defaults[of net_stats "ClaimReq ''w1'' 5" "[]" _ "''w1''" 5 "[''A'']"]
  by (simp add: is_success_def success_body_def net_down_def net_500_def net_stats_def)

section \<open>The pull loop\<close>

lemma write_wire_indep:
  "writeQueueProfiles ps (qm\<lparr>wire := w\<rparr>) =
     (fst (writeQueueProfiles ps qm), (snd (writeQueueProfiles ps qm))\<lparr>wire := w\<rparr>)"
  by (simp add: writeQueueProfiles_def split: list.splits)

lemma read_wire_indep: "readQueueProfiles (qm\<lparr>wire := w\<rparr>) = readQueueProfiles qm"
  by (simp add: readQueueProfiles_def)

lemma insert_wire_indep:
  "insert_profile now i u ps (qm\<lparr>wire := w\<rparr>) =
     (fst (insert_profile now i u ps qm), (snd (insert_profile now i u ps qm))\<lparr>wire := w\<rparr>)"
  by (simp add: insert_profile_def Let_def split_beta write_wire_indep)

lemma add_wire_indep:
  "addProfileToQueue now i u api (qm\<lparr>wire := w\<rparr>) =
     (fst (addProfileToQueue now i u api qm), (snd (addProfileToQueue now i u api qm))\<lparr>wire := w\<rparr>)"
  by (simp add: addProfileToQueue_def Let_def read_wire_indep insert_wire_indep
      split: option.splits sum.splits)

lemma add_keeps_wire: "wire (snd (addProfileToQueue now i u api qm)) = wire qm"
  by (simp add: addProfileToQueue_def insert_profile_def Let_def split_beta write_other
      split: option.splits sum.splits)

lemma add_outcomes_wire_indep: "add_outcomes now its (qm\<lparr>wire := w\<rparr>) = add_outcomes now its qm"
  by (induction its arbitrary: qm) (simp_all add: add_wire_indep)

lemma add_outcomes_items: "map fst (add_outcomes now its qm) = its"
  by (induction its arbitrary: qm) simp_all

lemma pull_loop_step:
  "pull_loop now net iid (it # its) (n, qm) =
     (let r = fst (addProfileToQueue now (item_id it) (item_username it) None qm);
          qm' = snd (addProfileToQueue now (item_id it) (item_username it) None qm)
      in if null_or_failed r
         then pull_loop now net iid its (n, qm'\<lparr>wire := wire qm' @ [ReleaseReq iid [item_id it]]\<rparr>)
         else pull_loop now net iid its (Suc n, qm'))"
  by (cases "addProfileToQueue now (item_id it) (item_username it) None qm")
     (auto simp: null_or_failed_def client_wires split: sum.splits option.splits)

lemma pull_loop_trace:
  "wire (snd (pull_loop now net iid its (n, qm))) = wire qm @ releases_of iid (add_outcomes now its qm)
   \<and> fst (pull_loop now net iid its (n, qm)) =
       n + length (filter (\<lambda>x. \<not> null_or_failed (snd x)) (add_outcomes now its qm))"
proof (induction its arbitrary: n qm)
  case Nil
  then show ?case by (simp add: releases_of_def)
next
  case (Cons it its)
  let ?a = "addProfileToQueue now (item_id it) (item_username it) None qm"
  show ?case
  proof (cases "null_or_failed (fst ?a)")
    case True
    then show ?thesis
      using Cons[of n "(snd ?a)\<lparr>wire := wire (snd ?a) @ [ReleaseReq iid [item_id it]]\<rparr>"]
      by (simp add: pull_loop_step Let_def add_outcomes_wire_indep add_keeps_wire releases_of_def
          del: pull_loop.simps)
  next
    case False
    then show ?thesis
      using Cons[of "Suc n" "snd ?a"]
      by (simp add: pull_loop_step Let_def add_keeps_wire releases_of_def del: pull_loop.simps)
  qed
qed

text \<open>
  What the loop over the claimed items sends. The items are added in order, each on the
  store the previous add left. The requests are one \<^verbatim>\<open>releaseItems([item.id])\<close> for
  every item whose add returned \<^verbatim>\<open>null\<close> or threw, in the order of the items, and
  nothing else; every other item is counted in \<^verbatim>\<open>addedCount\<close>. A whole pull on a
  healthy instance sends the claim and then those releases. By
  \<open>add_without_probe_not_null\<close> the add of this loop never returns \<^verbatim>\<open>null\<close>, so the
  releases are those of the adds that threw.
\<close>

theorem pull_releases_null_or_failed:
  "wire (snd (pull_loop now net iid its (n, qm))) = wire qm @ releases_of iid (add_outcomes now its qm)
   \<and> fst (pull_loop now net iid its (n, qm)) =
       n + length (filter (\<lambda>x. \<not> null_or_failed (snd x)) (add_outcomes now its qm))
   \<and> map fst (add_outcomes now its qm) = its
   \<and> (redisQueueClient qm = Some iid \<and> isHealthyToClaimWork v qm \<and>
        fst (claimItems net iid count (wire qm)) = Inr its \<longrightarrow>
        wire (snd (pullFromRedisQueue now count net v qm)) =
          wire qm @ ClaimReq iid count # releases_of iid (add_outcomes now its qm))"
proof -
  have "wire (snd (pullFromRedisQueue now count net v qm)) =
          wire qm @ ClaimReq iid count # releases_of iid (add_outcomes now its qm)"
    if "redisQueueClient qm = Some iid" "isHealthyToClaimWork v qm"
       "fst (claimItems net iid count (wire qm)) = Inr its"
  proof (cases its)
    case Nil
    then show ?thesis using that
      by (simp add: pullFromRedisQueue_def split_beta Let_def client_wires releases_of_def)
  next
    case (Cons a list)
    then show ?thesis using that
        pull_loop_trace[of now net iid its 0 "qm\<lparr>wire := wire qm @ [ClaimReq iid count]\<rparr>"]
      by (simp add: pullFromRedisQueue_def split_beta Let_def client_wires add_outcomes_wire_indep
          del: pull_loop.simps)
  qed
  then show ?thesis
    using pull_loop_trace[of now net iid its n qm] by (simp add: add_outcomes_items)
qed

text \<open>Called without a probe, the add never returns \<^verbatim>\<open>null\<close>.\<close>

lemma add_without_probe_not_null: "fst (addProfileToQueue now i u None qm) \<noteq> Inr None"
  by (simp add: addProfileToQueue_def insert_profile_def Let_def split_beta split: option.splits)

text \<open>
  C3 does not hold of the code. The claim asks that an item whose add found the profile
  already present be released, and the loop's own comment and log line (lines 307 to 309)
  say the same: \<^verbatim>\<open>Profile already exists or failed to add - release back to Redis\<close>.
  But the add returns the stored profile for such an item, the loop tests only that the
  result is truthy, and the add is called without the existence probe. On a store that
  holds \<^verbatim>\<open>A\<close>, a pull that claims \<^verbatim>\<open>A\<close> counts it as added, leaves the store as it
  was and sends the claim and no release. On an empty store, a batch that names \<^verbatim>\<open>A\<close>
  twice reports 2 added with one profile stored, and again releases nothing.
\<close>

theorem pull_already_present_not_released:
  "fst (addProfileToQueue 1 ''A'' (Some ''alice'') None store_A_client) = Inr (Some (new_profile 0 ''A'' ''alice''))
   \<and> fst (pullFromRedisQueue 1 1 net_claims_A None store_A_client) = 1
   \<and> wire (snd (pullFromRedisQueue 1 1 net_claims_A None store_A_client)) = [ClaimReq ''w1'' 1]
   \<and> readQueueProfiles (snd (pullFromRedisQueue 1 1 net_claims_A None store_A_client)) =
        [new_profile 0 ''A'' ''alice'']
   \<and> fst (pullFromRedisQueue 1 5 net_claims_AA None store_empty_client) = 2
   \<and> readQueueProfiles (snd (pullFromRedisQueue 1 5 net_claims_AA None store_empty_client)) =
        [new_profile 1 ''A'' ''alice'']
   \<and> wire (snd (pullFromRedisQueue 1 5 net_claims_AA None store_empty_client)) = [ClaimReq ''w1'' 5]"
  by code_simp

text \<open>Two items claimed on an empty store whose second write fails: \<^verbatim>\<open>A\<close> is added,
  the add of \<^verbatim>\<open>B\<close> throws and \<^verbatim>\<open>B\<close> alone is released.\<close>

theorem pull_releases_example:
  "redisQueueClient store_failing_second_write = Some ''w1''
   \<and> isHealthyToClaimWork None store_failing_second_write
   \<and> fst (claimItems net_claims_AB ''w1'' 5 (wire store_failing_second_write)) =
        Inr [\<lparr>item_id = ''A'', item_username = Some ''alice''\<rparr>, \<lparr>item_id = ''B'', item_username = None\<rparr>]
   \<and> wire (snd (pullFromRedisQueue 1 5 net_claims_AB None store_failing_second_write)) =
        [ClaimReq ''w1'' 5, ReleaseReq ''w1'' [''B'']]"
proof -
  have h1: "redisQueueClient store_failing_second_write = Some ''w1''" by code_simp
  have h2: "isHealthyToClaimWork None store_failing_second_write" by code_simp
  have h3: "fst (claimItems net_claims_AB ''w1'' 5 (wire store_failing_second_write)) =
        Inr [\<lparr>item_id = ''A'', item_username = Some ''alice''\<rparr>, \<lparr>item_id = ''B'', item_username = None\<rparr>]"
    by code_simp
  have h4: "wire store_failing_second_write @ ClaimReq ''w1'' 5 #
      releases_of ''w1'' (add_outcomes 1 [\<lparr>item_id = ''A'', item_username = Some ''alice''\<rparr>, \<lparr>item_id = ''B'', item_username = None\<rparr>] store_failing_second_write)
      = [ClaimReq ''w1'' 5, ReleaseReq ''w1'' [''B'']]"
    by code_simp
  show ?thesis
    using h1 h2 h3 h4
      pull_releases_null_or_failed[of 1 net_claims_AB "''w1''"
        "[\<lparr>item_id = ''A'', item_username = Some ''alice''\<rparr>, \<lparr>item_id = ''B'', item_username = None\<rparr>]"
        0 store_failing_second_write None 5]
    by simp
qed

section \<open>Selection of the next profile\<close>












section \<open>The health gate\<close>

lemma available_after_cleanup:
  assumes "distinct (map fst (cooldowns cm))"
  shows "isEndpointAvailable now (snd (cleanupExpiredCooldowns now cm)) e = isEndpointAvailable now cm e"
proof (cases "map_of (cooldowns cm) e")
  case None
  then have "e \<notin> fst ` set (cooldowns cm)" by (simp add: map_of_eq_None_iff)
  then have "e \<notin> fst ` set (filter (\<lambda>x. \<not> deadline_passed (snd x) now) (cooldowns cm))" by auto
  then have "map_of (filter (\<lambda>x. \<not> deadline_passed (snd x) now) (cooldowns cm)) e = None"
    by (simp add: map_of_eq_None_iff)
  then show ?thesis using None by (simp add: isEndpointAvailable_def cleanup_result[OF assms])
next
  case (Some c)
  show ?thesis
  proof (cases "deadline_passed c now")
    case True
    have "e \<notin> fst ` set (filter (\<lambda>x. \<not> deadline_passed (snd x) now) (cooldowns cm))"
    proof
      assume "e \<in> fst ` set (filter (\<lambda>x. \<not> deadline_passed (snd x) now) (cooldowns cm))"
      then obtain c' where "(e, c') \<in> set (cooldowns cm)" "\<not> deadline_passed c' now" by auto
      then show False using entry_of_key[OF assms Some] True by blast
    qed
    then have "map_of (filter (\<lambda>x. \<not> deadline_passed (snd x) now) (cooldowns cm)) e = None"
      by (simp add: map_of_eq_None_iff)
    then show ?thesis using Some True by (simp add: isEndpointAvailable_def cleanup_result[OF assms])
  next
    case False
    have "map_of (filter (\<lambda>(k, v). \<not> deadline_passed v now) (cooldowns cm)) e = Some c"
      using Some False by (intro map_of_filter_in) simp_all
    moreover have "(\<lambda>(k, v). \<not> deadline_passed v now) = (\<lambda>x :: string \<times> cooldown. \<not> deadline_passed (snd x) now)"
      by (simp add: fun_eq_iff)
    ultimately have "map_of (filter (\<lambda>x. \<not> deadline_passed (snd x) now) (cooldowns cm)) e = Some c"
      by simp
    then show ?thesis using Some False by (simp add: isEndpointAvailable_def cleanup_result[OF assms])
  qed
qed

lemma status_summary:
  assumes "distinct (map fst (cooldowns cm))"
  shows "list_ex (\<lambda>endpoint. 0 < availableConnections endpoint)
           (map snd (endpointSummary (fst (getConnectionStatus now cm))))
         = list_ex (isEndpointAvailable now cm) allEndpoints"
  by (simp add: getConnectionStatus_def Let_def list_ex_iff available_after_cleanup[OF assms] image_iff)

text \<open>
  C7. Without a validator \<^verbatim>\<open>isHealthyToClaimWork\<close> is true exactly when no stored
  profile has a deferred check. With a validator that returns a status it is true exactly
  when, besides, some endpoint of the summary has an available connection; for the status
  that \<^verbatim>\<open>getConnectionStatus\<close> of a cooldown manager returns, that is: some endpoint of
  the manager is available now. It is false whenever a stored profile has a deferred check,
  and a pull on an instance that is not healthy returns 0 and sends nothing.
\<close>

theorem isHealthy_iff:
  assumes "distinct (map fst (cooldowns cm))"
  shows "isHealthyToClaimWork None qm = (\<not> list_ex hasDeferred (getQueuedProfilesSync qm))
   \<and> isHealthyToClaimWork (Some (Inr st)) qm =
       (\<not> list_ex hasDeferred (getQueuedProfilesSync qm) \<and>
        list_ex (\<lambda>endpoint. 0 < availableConnections endpoint) (map snd (endpointSummary st)))
   \<and> isHealthyToClaimWork (Some (Inr (fst (getConnectionStatus now cm)))) qm =
       (\<not> list_ex hasDeferred (getQueuedProfilesSync qm) \<and> list_ex (isEndpointAvailable now cm) allEndpoints)
   \<and> (list_ex hasDeferred (getQueuedProfilesSync qm) \<longrightarrow> \<not> isHealthyToClaimWork v qm)
   \<and> (\<not> isHealthyToClaimWork v qm \<longrightarrow> pullFromRedisQueue now' count net v qm = (0, qm))"
proof -
  have a: "isHealthyToClaimWork None qm = (\<not> list_ex hasDeferred (getQueuedProfilesSync qm))"
    by (simp add: isHealthyToClaimWork_def)
  have b: "isHealthyToClaimWork (Some (Inr s)) qm =
       (\<not> list_ex hasDeferred (getQueuedProfilesSync qm) \<and>
        list_ex (\<lambda>endpoint. 0 < availableConnections endpoint) (map snd (endpointSummary s)))" for s
    by (simp add: isHealthyToClaimWork_def)
  have c: "list_ex hasDeferred (getQueuedProfilesSync qm) \<longrightarrow> \<not> isHealthyToClaimWork v qm"
    by (simp add: isHealthyToClaimWork_def)
  have d: "\<not> isHealthyToClaimWork v qm \<longrightarrow> pullFromRedisQueue now' count net v qm = (0, qm)"
    by (simp add: pullFromRedisQueue_def split: option.splits)
  show ?thesis
    using a b[of st] b[of "fst (getConnectionStatus now cm)"] c d
    by (simp only: status_summary[OF assms] simp_thms)
qed

text \<open>
  C10. When \<^verbatim>\<open>getCooldownStatus()\<close> of the validator throws, \<^verbatim>\<open>isHealthyToClaimWork\<close>
  returns \<^verbatim>\<open>false\<close>, and the pull returns 0 with the store and the wire as they were: no
  claim is sent.
\<close>

theorem health_gate_fails_closed:
  "isHealthyToClaimWork (Some (Inl err)) qm = False
   \<and> pullFromRedisQueue now count net (Some (Inl err)) qm = (0, qm)"
  by (simp add: isHealthyToClaimWork_def pullFromRedisQueue_def split: option.splits)

text \<open>With \<^verbatim>\<open>friends\<close> and \<^verbatim>\<open>inventory\<close> in cooldown and five endpoints free: a
  store with a deferred check is not healthy and its pull sends nothing; a store without
  one is healthy.\<close>

theorem isHealthy_iff_witness:
  "distinct (map fst (cooldowns marked_twice))
   \<and> list_ex hasDeferred (getQueuedProfilesSync store_deferred)
   \<and> \<not> isHealthyToClaimWork (Some (Inr (fst (getConnectionStatus 10 marked_twice)))) store_deferred
   \<and> pullFromRedisQueue 10 5 net_claims_A (Some (Inr (fst (getConnectionStatus 10 marked_twice)))) store_deferred
       = (0, store_deferred)
   \<and> isHealthyToClaimWork (Some (Inr (fst (getConnectionStatus 10 marked_twice)))) store_A_client"
proof -
  have h: "distinct (map fst (cooldowns marked_twice))"
    by (simp add: marked_twice_def mark_distinct marked_once_fields)
  have d: "list_ex hasDeferred (getQueuedProfilesSync store_deferred)" by code_simp
  have n: "\<not> list_ex hasDeferred (getQueuedProfilesSync store_A_client)" by code_simp
  have e: "list_ex (isEndpointAvailable 10 marked_twice) allEndpoints"
    by (simp add: allEndpoints_def isEndpointAvailable_def marked_twice_def markEndpointCooldown_def
        Let_def save_fields marked_once_fields)
  show ?thesis
    using h d n e
      isHealthy_iff[OF h, of store_deferred no_status 10
        "Some (Inr (fst (getConnectionStatus 10 marked_twice)))" 10 5 net_claims_A]
      isHealthy_iff[OF h, of store_A_client no_status 10
        "Some (Inr (fst (getConnectionStatus 10 marked_twice)))" 10 5 net_claims_A]
    by simp
qed

text \<open>A validator whose status call throws, on a store with no deferred check.\<close>

theorem health_gate_fails_closed_witness:
  "\<not> isHealthyToClaimWork (Some (Inl (TypeError ''getCooldownStatus is not a function''))) store_A_client
   \<and> pullFromRedisQueue 10 5 net_claims_A (Some (Inl (TypeError ''getCooldownStatus is not a function''))) store_A_client
       = (0, store_A_client)"
  using health_gate_fails_closed[of "TypeError ''getCooldownStatus is not a function''" store_A_client 10 5 net_claims_A]
  by simp

end
